theory Spec2Isabelle
  imports Complex_Main
begin

section \<open>Data model (core/models.py)\<close>

text \<open>
  Primary keys are UUIDs; they are opaque here. A float is a real number. The diversity
  sums, Chao1 and the assignment rate are idealised: their arithmetic is exact. The group
  percentages and \<open>random.uniform\<close>, whose bounds depend on the rounding, are rounded to
  IEEE doubles operation by operation. The one place where NumPy can leave the finite numbers
  (\<open>np.log\<close> of a non-positive argument) is kept as a value of its own.
\<close>

type_synonym uuid = nat

record sample =
  sample_id :: string

text \<open>
  \<open>TaxonomicAssignment\<close>: the fields that core/tasks.py reads or writes. The remaining
  columns (\<open>class_name\<close>, \<open>order\<close>, \<open>family\<close>, \<open>e_value\<close>, \<open>best_match_accession\<close>,
  \<open>novel_cluster_id\<close>, \<open>relative_abundance\<close>) are nullable and untouched by them.
  A nullable \<open>CharField\<close> is a \<open>string option\<close>.
\<close>

record taxonomic_assignment =
  sample :: uuid
  sequence_id :: string
  sequence_data :: string
  kingdom :: string
  phylum :: "string option"
  genus :: "string option"
  species :: "string option"
  database_source :: string
  confidence_level :: string
  confidence_score :: real
  identity_percent :: "real option"
  coverage_percent :: "real option"
  is_novel_taxon :: bool
  read_count :: int

datatype npfloat = Finite real | NonFinite

record biodiversity_metrics =
  shannon_diversity :: npfloat
  simpson_diversity :: real
  chao1_richness :: real
  observed_otus :: nat
  total_sequences :: int
  assigned_sequences :: nat
  novel_sequences :: nat
  assignment_rate :: real
  protist_percentage :: real
  metazoan_percentage :: real
  cnidarian_percentage :: real
  fungi_percentage :: real

datatype task = Calculate_biodiversity_metrics uuid

text \<open>
  The database: the \<open>Sample\<close> table, the \<open>TaxonomicAssignment\<close> table in insertion order,
  the \<open>BiodiversityMetrics\<close> table (one row per sample) and the Celery queue that
  \<open>.delay\<close> appends to. The settings that choose the backend are not among the sources, so
  the largest value of an \<open>IntegerField\<close> column is a parameter, \<open>integer_max\<close>:
  \<open>2^63 - 1\<close> on SQLite, \<open>2^31 - 1\<close> on PostgreSQL.
\<close>

record db =
  samples :: "uuid \<rightharpoonup> sample"
  assignments :: "taxonomic_assignment list"
  metrics :: "uuid \<rightharpoonup> biodiversity_metrics"
  queue :: "task list"
  integer_max :: int

text \<open>
  \<open>DataError\<close> stands for the refusal of an integer outside the column range: Python's
  \<open>OverflowError\<close> on SQLite, \<open>django.db.DataError\<close> on PostgreSQL.
\<close>

datatype py_exception = DoesNotExist | ZeroDivisionError | IntegrityError | DataError

datatype 'a outcome = Raised py_exception | Returned 'a

fun is_raised :: "'a outcome \<Rightarrow> bool" where
  "is_raised (Raised e) = True"
| "is_raised (Returned v) = False"

section \<open>IEEE doubles\<close>

text \<open>
  A Python float is an IEEE double: the result of an operation is the exact result rounded
  to the nearest number with a significand of 53 bits, ties to the even significand.
  \<open>double\<close> is that rounding. It leaves out overflow and subnormal numbers, which the
  numbers rounded here do not reach: quotients of column integers, their products with 100,
  and the sums and products of \<open>random.uniform(0.7, 0.98)\<close>.
\<close>

definition round_half_even :: "real \<Rightarrow> int" where
  "round_half_even q =
     (if q - of_int \<lfloor>q\<rfloor> < 1 / 2 then \<lfloor>q\<rfloor>
      else if 1 / 2 < q - of_int \<lfloor>q\<rfloor> then \<lfloor>q\<rfloor> + 1
      else if even \<lfloor>q\<rfloor> then \<lfloor>q\<rfloor> else \<lfloor>q\<rfloor> + 1)"

text \<open>
  The binary exponent of a number other than 0, \<open>\<lfloor>log\<^sub>2 \<bar>x\<bar>\<rfloor>\<close>, from the number of bits of
  the integer part of \<open>\<bar>x\<bar>\<close>, or of \<open>1 / \<bar>x\<bar>\<close> below 1.
\<close>

fun bit_length :: "nat \<Rightarrow> nat" where
  "bit_length n = (if n = 0 then 0 else Suc (bit_length (n div 2)))"

declare bit_length.simps [simp del]

definition exponent :: "real \<Rightarrow> int" where
  "exponent x =
     (if 1 \<le> \<bar>x\<bar> then int (bit_length (nat \<lfloor>\<bar>x\<bar>\<rfloor>)) - 1
      else - int (bit_length (nat (\<lceil>1 / \<bar>x\<bar>\<rceil> - 1))))"

definition double :: "real \<Rightarrow> real" where
  "double x =
     (if x = 0 then 0
      else of_int (round_half_even (x / power_int 2 (exponent x - 52)))
             * power_int 2 (exponent x - 52))"

section \<open>Query sets\<close>

text \<open>
  \<open>Meta.ordering = ['-confidence_score', '-read_count']\<close>: a query set of assignments is
  iterated by descending score, then descending read count.
\<close>

definition ordered_before :: "taxonomic_assignment \<Rightarrow> taxonomic_assignment \<Rightarrow> bool" where
  "ordered_before a b \<longleftrightarrow>
     confidence_score b < confidence_score a \<or>
     (confidence_score a = confidence_score b \<and> read_count b \<le> read_count a)"

fun insert_row :: "taxonomic_assignment \<Rightarrow> taxonomic_assignment list \<Rightarrow> taxonomic_assignment list" where
  "insert_row a [] = [a]"
| "insert_row a (b # bs) = (if ordered_before a b then a # b # bs else b # insert_row a bs)"

definition order_by :: "taxonomic_assignment list \<Rightarrow> taxonomic_assignment list" where
  "order_by rows = foldr insert_row rows []"

definition taxonomic_assignments :: "db \<Rightarrow> uuid \<Rightarrow> taxonomic_assignment list" where
  "taxonomic_assignments d sid = order_by (filter (\<lambda>a. sample a = sid) (assignments d))"

definition phylum_in :: "string list \<Rightarrow> taxonomic_assignment \<Rightarrow> bool" where
  "phylum_in names a = (case phylum a of None \<Rightarrow> False | Some p \<Rightarrow> p \<in> set names)"

text \<open>
  \<open>aggregate(total=Sum('read_count'))['total']\<close> is \<open>None\<close> on no rows; \<open>or 0\<close> follows.
  The sum is the exact one. A backend accumulates it in 64 bits at least; with read counts
  of at least 1 it stays below the total of the reads, which must fit a column for the
  function to succeed.
\<close>

definition aggregate_sum :: "taxonomic_assignment list \<Rightarrow> int option" where
  "aggregate_sum rows = (if rows = [] then None else Some (sum_list (map read_count rows)))"

fun or_zero :: "int option \<Rightarrow> int" where
  "or_zero None = 0"
| "or_zero (Some v) = (if v = 0 then 0 else v)"

definition group_reads :: "string list \<Rightarrow> taxonomic_assignment list \<Rightarrow> int" where
  "group_reads names rows = or_zero (aggregate_sum (filter (phylum_in names) rows))"

section \<open>calculate_biodiversity_metrics (core/tasks.py)\<close>

fun truthy :: "string option \<Rightarrow> bool" where
  "truthy None = False"
| "truthy (Some s) = (s \<noteq> [])"

fun format_field :: "string option \<Rightarrow> string" where
  "format_field None = ''None''"
| "format_field (Some s) = s"

text \<open>\<open>assignment.species or f"{assignment.genus}_sp" or "Unknown"\<close>\<close>

definition species_key :: "taxonomic_assignment \<Rightarrow> string" where
  "species_key a =
     (if truthy (species a) then format_field (species a)
      else if format_field (genus a) @ ''_sp'' \<noteq> [] then format_field (genus a) @ ''_sp''
      else ''Unknown'')"

fun add_reads :: "string \<Rightarrow> int \<Rightarrow> (string \<times> int) list \<Rightarrow> (string \<times> int) list" where
  "add_reads k r [] = [(k, r)]"
| "add_reads k r ((k', c) # kvs) =
     (if k = k' then (k', c + r) # kvs else (k', c) # add_reads k r kvs)"

fun count_loop ::
  "taxonomic_assignment list \<Rightarrow> (string \<times> int) list \<Rightarrow> int \<Rightarrow> (string \<times> int) list \<times> int" where
  "count_loop [] species_counts total_reads = (species_counts, total_reads)"
| "count_loop (a # rest) species_counts total_reads =
     count_loop rest (add_reads (species_key a) (read_count a) species_counts)
       (total_reads + read_count a)"

definition np_log :: "real \<Rightarrow> npfloat" where
  "np_log p = (if 0 < p then Finite (ln p) else NonFinite)"

fun np_mul :: "real \<Rightarrow> npfloat \<Rightarrow> npfloat" where
  "np_mul p (Finite x) = Finite (p * x)"
| "np_mul p NonFinite = NonFinite"

fun np_sub :: "npfloat \<Rightarrow> npfloat \<Rightarrow> npfloat" where
  "np_sub (Finite x) (Finite y) = Finite (x - y)"
| "np_sub x y = NonFinite"

fun shannon_loop :: "int list \<Rightarrow> int \<Rightarrow> npfloat \<Rightarrow> py_exception + npfloat" where
  "shannon_loop [] total_reads acc = Inr acc"
| "shannon_loop (c # cs) total_reads acc =
     (if 0 < c then
        (if total_reads = 0 then Inl ZeroDivisionError
         else let p = real_of_int c / real_of_int total_reads
              in shannon_loop cs total_reads (np_sub acc (np_mul p (np_log p))))
      else shannon_loop cs total_reads acc)"

fun simpson_loop :: "int list \<Rightarrow> int \<Rightarrow> real \<Rightarrow> py_exception + real" where
  "simpson_loop [] total_reads acc = Inr acc"
| "simpson_loop (c # cs) total_reads acc =
     (if 0 < c then
        (if total_reads = 0 then Inl ZeroDivisionError
         else let p = real_of_int c / real_of_int total_reads
              in simpson_loop cs total_reads (acc + p * p))
      else simpson_loop cs total_reads acc)"

definition singletons :: "(string \<times> int) list \<Rightarrow> nat" where
  "singletons species_counts = length (filter (\<lambda>c. c = 1) (map snd species_counts))"

definition doubletons :: "(string \<times> int) list \<Rightarrow> nat" where
  "doubletons species_counts = length (filter (\<lambda>c. c = 2) (map snd species_counts))"

definition chao1 :: "(string \<times> int) list \<Rightarrow> real" where
  "chao1 species_counts =
     (if 0 < doubletons species_counts
      then real (length species_counts) +
           real (singletons species_counts * singletons species_counts) /
           real (2 * doubletons species_counts)
      else real (length species_counts))"

definition protist_phylums :: "string list" where
  "protist_phylums = [''Foraminifera'', ''Radiolaria'', ''Ciliophora'', ''Dinoflagellata'']"

definition metazoan_phylums :: "string list" where
  "metazoan_phylums = [''Nematoda'', ''Arthropoda'', ''Mollusca'', ''Annelida'']"

definition cnidarian_phylums :: "string list" where
  "cnidarian_phylums = [''Cnidaria'']"

definition fungi_phylums :: "string list" where
  "fungi_phylums = [''Ascomycota'', ''Basidiomycota'']"

text \<open>
  \<open>(reads / total_reads * 100) if total_reads > 0 else 0\<close>: the quotient of two integers
  is rounded to a double, and so is its product with 100.
\<close>

definition percentage :: "int \<Rightarrow> int \<Rightarrow> real" where
  "percentage reads total_reads =
     (if 0 < total_reads
      then double (double (real_of_int reads / real_of_int total_reads) * 100) else 0)"

text \<open>
  Lines 26 to 103: everything between the emptiness guard and \<open>update_or_create\<close>, on the
  rows of the sample as the query set yields them. The two diversity loops can raise.
\<close>

definition metrics_of :: "taxonomic_assignment list \<Rightarrow> py_exception + biodiversity_metrics" where
  "metrics_of rows =
     (let (species_counts, total_reads) = count_loop rows [] 0;
          counts = map snd species_counts
      in case shannon_loop counts total_reads (Finite 0) of
           Inl e \<Rightarrow> Inl e
         | Inr shannon \<Rightarrow>
             (case simpson_loop counts total_reads 0 of
                Inl e \<Rightarrow> Inl e
              | Inr simpson_sum \<Rightarrow>
                  Inr \<lparr> shannon_diversity = shannon,
                        simpson_diversity = 1 - simpson_sum,
                        chao1_richness = chao1 species_counts,
                        observed_otus = length species_counts,
                        total_sequences = total_reads,
                        assigned_sequences = length rows,
                        novel_sequences = length (filter is_novel_taxon rows),
                        assignment_rate =
                          (if 0 < total_reads
                           then real (length rows) / real_of_int total_reads else 0),
                        protist_percentage =
                          percentage (group_reads protist_phylums rows) total_reads,
                        metazoan_percentage =
                          percentage (group_reads metazoan_phylums rows) total_reads,
                        cnidarian_percentage =
                          percentage (group_reads cnidarian_phylums rows) total_reads,
                        fungi_percentage =
                          percentage (group_reads fungi_phylums rows) total_reads \<rparr>))"

text \<open>
  What a function returns: \<open>{'error': 'Sample ... not found'}\<close>,
  \<open>{'error': 'No taxonomic assignments found for sample'}\<close>, \<open>{'error': str(e)}\<close>,
  or its success dictionary: Shannon, Simpson, observed OTUs and total sequences for the
  metrics function, \<open>assignments_created\<close> and \<open>file_processed\<close> for the processing function. The
  echo of the sample id in the success dictionaries is left out.
\<close>

datatype task_return =
    Error_sample_not_found
  | Error_no_assignments
  | Error_exception py_exception
  | Metrics_success npfloat real nat int
  | Process_success nat string

text \<open>
  \<open>BiodiversityMetrics.objects.update_or_create\<close>: the row of the sample is written, unless
  one of the four integers is outside the range of its \<open>IntegerField\<close> column; then the
  backend raises and nothing is stored.
\<close>

definition fits_column :: "db \<Rightarrow> int \<Rightarrow> bool" where
  "fits_column d v \<longleftrightarrow> - integer_max d - 1 \<le> v \<and> v \<le> integer_max d"

definition update_or_create :: "db \<Rightarrow> uuid \<Rightarrow> biodiversity_metrics \<Rightarrow> py_exception + db" where
  "update_or_create d sid m =
     (if fits_column d (int (observed_otus m)) \<and> fits_column d (total_sequences m) \<and>
         fits_column d (int (assigned_sequences m)) \<and> fits_column d (int (novel_sequences m))
      then Inr (d\<lparr>metrics := (metrics d)(sid \<mapsto> m)\<rparr>)
      else Inl DataError)"

text \<open>The body of the \<open>try\<close> block.\<close>

definition calculate_body :: "db \<Rightarrow> uuid \<Rightarrow> db \<times> task_return outcome" where
  "calculate_body d sid =
     (case samples d sid of
        None \<Rightarrow> (d, Raised DoesNotExist)
      | Some smp \<Rightarrow>
          (let rows = taxonomic_assignments d sid
           in if rows = [] then (d, Returned Error_no_assignments)
              else (case metrics_of rows of
                      Inl e \<Rightarrow> (d, Raised e)
                    | Inr m \<Rightarrow>
                        (case update_or_create d sid m of
                           Inl e \<Rightarrow> (d, Raised e)
                         | Inr d' \<Rightarrow>
                             (d', Returned (Metrics_success (shannon_diversity m)
                                             (simpson_diversity m) (observed_otus m)
                                             (total_sequences m)))))))"

text \<open>The \<open>except\<close> clauses: every exception becomes a returned error dictionary.\<close>

fun handle_exceptions :: "db \<times> task_return outcome \<Rightarrow> db \<times> task_return outcome" where
  "handle_exceptions (d, Raised DoesNotExist) = (d, Returned Error_sample_not_found)"
| "handle_exceptions (d, Raised e) = (d, Returned (Error_exception e))"
| "handle_exceptions (d, Returned r) = (d, Returned r)"

definition calculate_biodiversity_metrics :: "db \<Rightarrow> uuid \<Rightarrow> db \<times> task_return outcome" where
  "calculate_biodiversity_metrics d sid = handle_exceptions (calculate_body d sid)"

section \<open>process_sequence_file (core/tasks.py)\<close>

text \<open>
  The function draws from Python's \<open>random\<close> module. The draws are an input of the model: one
  for the loop count and five per iteration, in the order the code makes them.
  \<open>randint\<close> and \<open>choice\<close> reduce an arbitrary natural number into their range;
  \<open>random()\<close> is a real that the module takes from \<open>[0, 1)\<close>, and
  \<open>uniform(a, b)\<close> is \<open>a + (b - a) * random()\<close>, each of its three operations rounded to a
  double. A float literal such as \<open>0.7\<close> is the double nearest to it. The parameter
  \<open>file_type\<close> is never read and is left out.
\<close>

record iteration_draws =
  choice_draw :: nat
  level_draw :: real
  score_draw :: real
  reads_draw :: nat
  novel_draw :: real

record random_source =
  count_draw :: nat
  iteration :: "nat \<Rightarrow> iteration_draws"

definition unit_draw :: "real \<Rightarrow> bool" where
  "unit_draw u \<longleftrightarrow> 0 \<le> u \<and> u < 1"

definition randint :: "int \<Rightarrow> int \<Rightarrow> nat \<Rightarrow> int" where
  "randint a b k = a + int (k mod nat (b - a + 1))"

definition uniform :: "real \<Rightarrow> real \<Rightarrow> real \<Rightarrow> real" where
  "uniform a b u = double (a + double (double (b - a) * u))"

definition choice :: "'a list \<Rightarrow> nat \<Rightarrow> 'a" where
  "choice xs k = xs ! (k mod length xs)"

text \<open>Kingdom, phylum, genus and species of the four simulated taxa.\<close>

definition sample_taxa :: "(string \<times> string \<times> string \<times> string) list" where
  "sample_taxa =
     [(''Eukaryota'', ''Foraminifera'', ''Globigerina'', ''Globigerina bulloides''),
      (''Eukaryota'', ''Radiolaria'', ''Spongaster'', ''Spongaster tetras''),
      (''Eukaryota'', ''Ciliophora'', ''Paramecium'', ''Paramecium aurelia''),
      (''Eukaryota'', ''Nematoda'', ''Caenorhabditis'', ''Caenorhabditis elegans'')]"

text \<open>\<open>f"{i:04d}"\<close>: decimal digits, padded with zeros to four characters.\<close>

definition digit :: "nat \<Rightarrow> char" where
  "digit n = ''0123456789'' ! n"

fun decimal :: "nat \<Rightarrow> string" where
  "decimal n = (if n < 10 then [digit n] else decimal (n div 10) @ [digit (n mod 10)])"

definition format_04d :: "nat \<Rightarrow> string" where
  "format_04d i = replicate (4 - length (decimal i)) (CHR ''0'') @ decimal i"

text \<open>\<open>f"seq_{sample.sample_id}_{i:04d}"\<close>\<close>

definition seq_id :: "sample \<Rightarrow> nat \<Rightarrow> string" where
  "seq_id smp i = ''seq_'' @ sample_id smp @ ''_'' @ format_04d i"

text \<open>The keyword arguments of \<open>TaxonomicAssignment.objects.create\<close>, evaluated in order.\<close>

definition new_assignment :: "uuid \<Rightarrow> sample \<Rightarrow> nat \<Rightarrow> iteration_draws \<Rightarrow> taxonomic_assignment" where
  "new_assignment sid smp i dr =
     (case choice sample_taxa (choice_draw dr) of
        (taxon_kingdom, taxon_phylum, taxon_genus, taxon_species) \<Rightarrow>
          \<lparr> sample = sid,
            sequence_id = seq_id smp i,
            sequence_data = ''ATCGATCGATCGATCG...'',
            kingdom = taxon_kingdom,
            phylum = Some taxon_phylum,
            genus = Some taxon_genus,
            species = Some taxon_species,
            database_source = ''SSU_eukaryote_rRNA'',
            confidence_level =
              (if double (3 / 10) < level_draw dr then ''high'' else ''medium''),
            confidence_score = uniform (double (7 / 10)) (double (98 / 100)) (score_draw dr),
            identity_percent = None,
            coverage_percent = None,
            is_novel_taxon = (novel_draw dr < double (1 / 10)),
            read_count = randint 1 50 (reads_draw dr) \<rparr>)"

text \<open>
  \<open>objects.create\<close> inserts a row; \<open>unique_together = ['sample', 'sequence_id']\<close> makes the
  database refuse a second row with the same pair.
\<close>

definition objects_create ::
  "taxonomic_assignment list \<Rightarrow> taxonomic_assignment \<Rightarrow> py_exception + taxonomic_assignment list" where
  "objects_create table a =
     (if \<exists>b\<in>set table. sample b = sample a \<and> sequence_id b = sequence_id a
      then Inl IntegrityError else Inr (table @ [a]))"

text \<open>The \<open>for\<close> loop: rows created before an exception stay in the table.\<close>

fun create_loop ::
  "uuid \<Rightarrow> sample \<Rightarrow> (nat \<Rightarrow> iteration_draws) \<Rightarrow> nat list \<Rightarrow> taxonomic_assignment list \<Rightarrow> nat
     \<Rightarrow> taxonomic_assignment list \<times> (py_exception + nat)" where
  "create_loop sid smp draws [] table assignments_created = (table, Inr assignments_created)"
| "create_loop sid smp draws (i # rest) table assignments_created =
     (case objects_create table (new_assignment sid smp i (draws i)) of
        Inl e \<Rightarrow> (table, Inl e)
      | Inr table' \<Rightarrow> create_loop sid smp draws rest table' (assignments_created + 1))"

definition process_body :: "db \<Rightarrow> uuid \<Rightarrow> string \<Rightarrow> random_source \<Rightarrow> db \<times> task_return outcome" where
  "process_body d sid file_path rnd =
     (case samples d sid of
        None \<Rightarrow> (d, Raised DoesNotExist)
      | Some smp \<Rightarrow>
          (case create_loop sid smp (iteration rnd)
                  [0 ..< nat (randint 50 200 (count_draw rnd))] (assignments d) 0 of
             (table, Inl e) \<Rightarrow> (d\<lparr>assignments := table\<rparr>, Raised e)
           | (table, Inr assignments_created) \<Rightarrow>
               (d\<lparr>assignments := table,
                   queue := queue d @ [Calculate_biodiversity_metrics sid]\<rparr>,
                Returned (Process_success assignments_created file_path))))"

definition process_sequence_file ::
  "db \<Rightarrow> uuid \<Rightarrow> string \<Rightarrow> random_source \<Rightarrow> db \<times> task_return outcome" where
  "process_sequence_file d sid file_path rnd = handle_exceptions (process_body d sid file_path rnd)"

section \<open>Reference definitions\<close>

text \<open>Whether a function returned its success dictionary.\<close>

fun succeeded :: "db \<times> task_return outcome \<Rightarrow> bool" where
  "succeeded (d, Returned (Metrics_success sh si ob tr)) = True"
| "succeeded (d, Returned (Process_success n f)) = True"
| "succeeded (d, r) = False"

text \<open>
  The grouping as the specification words it: the reads of a species key, and the number of
  keys with a given number of reads.
\<close>

definition group_total :: "taxonomic_assignment list \<Rightarrow> string \<Rightarrow> int" where
  "group_total rows k = sum_list (map read_count (filter (\<lambda>a. species_key a = k) rows))"

definition groups_with_count :: "taxonomic_assignment list \<Rightarrow> int \<Rightarrow> nat" where
  "groups_with_count rows n = card {k \<in> species_key ` set rows. group_total rows k = n}"

text \<open>A dictionary lookup with default 0, for the loop invariant.\<close>

definition lookup0 :: "(string \<times> int) list \<Rightarrow> string \<Rightarrow> int" where
  "lookup0 sc k = (case map_of sc k of None \<Rightarrow> 0 | Some v \<Rightarrow> v)"

text \<open>The summands of the two diversity loops.\<close>

definition shannon_term :: "int \<Rightarrow> int \<Rightarrow> real" where
  "shannon_term total_reads c =
     (if 0 < c then (real_of_int c / real_of_int total_reads) * ln (real_of_int c / real_of_int total_reads) else 0)"

definition simpson_term :: "int \<Rightarrow> int \<Rightarrow> real" where
  "simpson_term total_reads c =
     (if 0 < c then (real_of_int c / real_of_int total_reads) * (real_of_int c / real_of_int total_reads) else 0)"

text \<open>
  The proportion \<open>p\<close> of a species key, as the specification words it: the reads of the
  key over all reads.
\<close>

definition proportion :: "taxonomic_assignment list \<Rightarrow> string \<Rightarrow> real" where
  "proportion rows k =
     real_of_int (group_total rows k) / real_of_int (sum_list (map read_count rows))"

text \<open>The sum of the four group percentages of a record.\<close>

definition percentage_sum :: "biodiversity_metrics \<Rightarrow> real" where
  "percentage_sum m =
     protist_percentage m + metazoan_percentage m + cnidarian_percentage m + fungi_percentage m"

text \<open>The count of assigned sequences as the specification words it.\<close>

definition claimed_assigned_sequences :: "taxonomic_assignment list \<Rightarrow> nat" where
  "claimed_assigned_sequences rows =
     length (filter (\<lambda>a. confidence_level a \<noteq> ''uncertain'') rows)"

text \<open>Reading a decimal string back, to tell sequence ids apart.\<close>

definition digit_value :: "char \<Rightarrow> nat" where
  "digit_value c = of_char c - 48"

definition decimal_value :: "string \<Rightarrow> nat" where
  "decimal_value s = foldl (\<lambda>acc c. 10 * acc + digit_value c) 0 s"

text \<open>
  The classifier and the detector as the specification words them, on the match statistics
  a stored assignment carries (identity and coverage percent).
\<close>

definition best_match :: "taxonomic_assignment \<Rightarrow> (real \<times> real) option" where
  "best_match a =
     (case identity_percent a of
        None \<Rightarrow> None
      | Some identity \<Rightarrow>
          (case coverage_percent a of None \<Rightarrow> None | Some coverage \<Rightarrow> Some (identity, coverage)))"

definition claimed_level :: "real \<Rightarrow> string" where
  "claimed_level score =
     (if 0.9 \<le> score then ''high'' else if 0.7 \<le> score then ''medium''
      else if 0.5 \<le> score then ''low'' else ''uncertain'')"

fun claimed_classify :: "(real \<times> real) option \<Rightarrow> string \<times> real" where
  "claimed_classify None = (''uncertain'', 0)"
| "claimed_classify (Some (identity, coverage)) =
     (claimed_level (identity / 100 * min 1 (coverage / 70)),
      identity / 100 * min 1 (coverage / 70))"

fun claimed_is_novel :: "(real \<times> real) option \<Rightarrow> bool" where
  "claimed_is_novel None = True"
| "claimed_is_novel (Some (identity, coverage)) = (identity < 80)"

text \<open>The number of iterations and the rows a run on a sample without assignments adds.\<close>

definition iterations :: "random_source \<Rightarrow> nat" where
  "iterations rnd = nat (randint 50 200 (count_draw rnd))"

definition created_rows :: "uuid \<Rightarrow> sample \<Rightarrow> random_source \<Rightarrow> taxonomic_assignment list" where
  "created_rows sid smp rnd =
     map (\<lambda>i. new_assignment sid smp i (iteration rnd i)) [0 ..< iterations rnd]"

text \<open>
  The rows a run added to the table, and the uniqueness constraint of the table.
\<close>

definition created_by :: "db \<Rightarrow> db \<Rightarrow> taxonomic_assignment list" where
  "created_by d d' = drop (length (assignments d)) (assignments d')"

definition unique_together :: "taxonomic_assignment list \<Rightarrow> bool" where
  "unique_together table = distinct (map (\<lambda>a. (sample a, sequence_id a)) table)"

section \<open>Example inputs\<close>

definition example_row ::
  "string \<Rightarrow> string option \<Rightarrow> string option \<Rightarrow> string option \<Rightarrow> string \<Rightarrow> real \<Rightarrow> int
     \<Rightarrow> taxonomic_assignment" where
  "example_row seq ph ge sp level score reads =
     \<lparr> sample = 1, sequence_id = seq, sequence_data = ''ATCG'', kingdom = ''Eukaryota'',
       phylum = ph, genus = ge, species = sp, database_source = ''nt_euk'',
       confidence_level = level, confidence_score = score, identity_percent = None,
       coverage_percent = None, is_novel_taxon = False, read_count = reads \<rparr>"

definition example_db :: "taxonomic_assignment list \<Rightarrow> db" where
  "example_db rows =
     \<lparr> samples = [1 \<mapsto> \<lparr> sample_id = ''S1'' \<rparr>], assignments = rows,
       metrics = Map.empty, queue = [], integer_max = 2 ^ 63 - 1 \<rparr>"

definition rows_abc :: "taxonomic_assignment list" where
  "rows_abc =
     [example_row ''q1'' (Some ''Cnidaria'') (Some ''A'') (Some ''A a'') ''high'' 0.95 1,
      example_row ''q2'' (Some ''Nematoda'') (Some ''B'') (Some ''B b'') ''medium'' 0.8 1,
      example_row ''q3'' (Some ''Ascomycota'') (Some ''C'') (Some ''C c'') ''low'' 0.6 1,
      example_row ''q4'' None (Some ''C'') (Some ''C c'') ''low'' 0.6 1]"

definition rows_single :: "taxonomic_assignment list" where
  "rows_single =
     [example_row ''q1'' (Some ''Cnidaria'') (Some ''A'') (Some ''A a'') ''high'' 0.95 4,
      example_row ''q2'' (Some ''Cnidaria'') (Some ''A'') (Some ''A a'') ''medium'' 0.8 6]"

definition rows_ninths :: "taxonomic_assignment list" where
  "rows_ninths =
     [example_row ''q1'' (Some ''Foraminifera'') (Some ''A'') (Some ''A a'') ''high'' 0.95 1,
      example_row ''q2'' (Some ''Nematoda'') (Some ''B'') (Some ''B b'') ''medium'' 0.8 7,
      example_row ''q3'' (Some ''Ascomycota'') (Some ''C'') (Some ''C c'') ''low'' 0.6 1]"

definition rows_overflow :: "taxonomic_assignment list" where
  "rows_overflow =
     [example_row ''q1'' (Some ''Cnidaria'') (Some ''A'') (Some ''A a'') ''high'' 0.95 (2 ^ 63 - 1),
      example_row ''q2'' (Some ''Nematoda'') (Some ''B'') (Some ''B b'') ''medium'' 0.8 1]"

definition rows_uncertain :: "taxonomic_assignment list" where
  "rows_uncertain = [example_row ''q1'' None None None ''uncertain'' 0 1]"

lemmas example_defs = example_db_def example_row_def rows_abc_def rows_single_def
  rows_ninths_def rows_overflow_def rows_uncertain_def

lemmas task_defs = calculate_biodiversity_metrics_def calculate_body_def
  taxonomic_assignments_def order_by_def ordered_before_def update_or_create_def
  fits_column_def

lemmas metrics_defs = metrics_of_def species_key_def np_log_def chao1_def singletons_def
  doubletons_def percentage_def group_reads_def aggregate_sum_def phylum_in_def
  protist_phylums_def metazoan_phylums_def cnidarian_phylums_def fungi_phylums_def

text \<open>Two random sources: 50 and 57 iterations.\<close>

definition example_draws :: random_source where
  "example_draws =
     \<lparr> count_draw = 0,
       iteration = (\<lambda>i. \<lparr> choice_draw = 0, level_draw = 0.5, score_draw = 0.5, reads_draw = 0,
                           novel_draw = (if i = 0 then 0.05 else 0.5) \<rparr>) \<rparr>"

definition other_draws :: random_source where
  "other_draws =
     \<lparr> count_draw = 7,
       iteration = (\<lambda>i. \<lparr> choice_draw = 3, level_draw = 0.1, score_draw = 0.5, reads_draw = 9,
                           novel_draw = 0.5 \<rparr>) \<rparr>"

section \<open>Rounding to doubles\<close>

lemma round_half_even_int: "round_half_even (of_int n) = n"
  by (simp add: round_half_even_def)

lemma round_half_even_floor: "\<lfloor>q\<rfloor> \<le> round_half_even q" "round_half_even q \<le> \<lfloor>q\<rfloor> + 1"
  by (simp_all add: round_half_even_def)

lemma round_half_even_error:
  "of_int (round_half_even q) \<le> q + 1 / 2" "q - 1 / 2 \<le> of_int (round_half_even q)"
proof -
  have f: "of_int \<lfloor>q\<rfloor> \<le> q" "q < of_int \<lfloor>q\<rfloor> + 1" by linarith+
  consider (down) "q - of_int \<lfloor>q\<rfloor> < 1 / 2" | (up) "1 / 2 < q - of_int \<lfloor>q\<rfloor>"
    | (tie) "q - of_int \<lfloor>q\<rfloor> = 1 / 2" by linarith
  then have "of_int (round_half_even q) \<le> q + 1 / 2 \<and> q - 1 / 2 \<le> of_int (round_half_even q)"
  proof cases
    case down
    then have "round_half_even q = \<lfloor>q\<rfloor>" by (simp only: round_half_even_def if_True)
    then show ?thesis using f down by linarith
  next
    case up
    then have "\<not> q - of_int \<lfloor>q\<rfloor> < 1 / 2" by linarith
    then have "round_half_even q = \<lfloor>q\<rfloor> + 1" using up
      by (simp only: round_half_even_def if_True if_False)
    then have "real_of_int (round_half_even q) = of_int \<lfloor>q\<rfloor> + 1" by simp
    then show ?thesis using f up by linarith
  next
    case tie
    have "round_half_even q = \<lfloor>q\<rfloor> \<or> round_half_even q = \<lfloor>q\<rfloor> + 1"
      using round_half_even_floor [of q] by linarith
    then have "real_of_int (round_half_even q) = of_int \<lfloor>q\<rfloor>
                 \<or> real_of_int (round_half_even q) = of_int \<lfloor>q\<rfloor> + 1"
      by auto
    then show ?thesis using tie by linarith
  qed
  then show "of_int (round_half_even q) \<le> q + 1 / 2" "q - 1 / 2 \<le> of_int (round_half_even q)"
    by simp_all
qed

lemma round_half_even_mono:
  assumes "q \<le> q'"
  shows "round_half_even q \<le> round_half_even q'"
proof (cases "\<lfloor>q\<rfloor> = \<lfloor>q'\<rfloor>")
  case True
  then show ?thesis using assms by (auto simp: round_half_even_def)
next
  case False
  have "\<lfloor>q\<rfloor> \<le> \<lfloor>q'\<rfloor>" using assms by (rule floor_mono)
  then have "\<lfloor>q\<rfloor> + 1 \<le> \<lfloor>q'\<rfloor>" using False by simp
  then show ?thesis
    using round_half_even_floor(2) [of q] round_half_even_floor(1) [of q'] by linarith
qed

text \<open>The exponent is the floor of the binary logarithm.\<close>

lemma bit_length_bounds:
  "0 < n \<Longrightarrow> 2 ^ (bit_length n - 1) \<le> n \<and> n < 2 ^ bit_length n"
proof (induction n rule: bit_length.induct)
  case (1 n)
  show ?case
  proof (cases "n div 2 = 0")
    case True
    then have "n = 1" using 1(2) by (simp add: div_eq_0_iff) 
    then show ?thesis by (simp add: bit_length.simps)
  next
    case False
    then have h: "0 < n div 2" by simp
    have ih: "2 ^ (bit_length (n div 2) - 1) \<le> n div 2 \<and> n div 2 < 2 ^ bit_length (n div 2)"
      using 1(1) 1(2) h by simp
    have b: "bit_length n = Suc (bit_length (n div 2))" using 1(2) by (subst bit_length.simps) simp
    have pos: "0 < bit_length (n div 2)" using h by (subst bit_length.simps) simp
    then have p: "(2::nat) ^ bit_length (n div 2) = 2 * 2 ^ (bit_length (n div 2) - 1)"
      by (cases "bit_length (n div 2)") simp_all
    show ?thesis unfolding b using ih p by (simp, linarith)
  qed
qed

lemma floor_log_unique:
  assumes "0 < y" and "2 powr of_int k \<le> y" and "y < 2 powr (of_int k + 1)"
  shows "\<lfloor>log 2 y\<rfloor> = k"
proof (rule floor_unique)
  show "of_int k \<le> log 2 y" using assms(1,2) by (simp add: le_log_iff)
  show "log 2 y < of_int k + 1" using assms(1,3) by (simp add: log_less_iff)
qed

lemma exponent_log:
  assumes "x \<noteq> 0"
  shows "exponent x = \<lfloor>log 2 \<bar>x\<bar>\<rfloor>"
proof (cases "1 \<le> \<bar>x\<bar>")
  case True
  let ?y = "\<bar>x\<bar>"
  let ?n = "nat \<lfloor>?y\<rfloor>"
  let ?b = "bit_length ?n"
  have n: "0 < ?n" using True by simp
  have bb: "2 ^ (?b - 1) \<le> ?n" "?n < 2 ^ ?b" using bit_length_bounds [OF n] by simp_all
  have b: "0 < ?b" using n by (subst bit_length.simps) simp
  have ny: "real ?n \<le> ?y" "?y < real ?n + 1" using True by (simp_all add: of_nat_nat)
  have k: "real_of_int (int ?b - 1) = real (?b - 1)" "real (?b - 1) + 1 = real ?b"
    using b by (simp_all add: of_nat_diff)
  have "real (2 ^ (?b - 1)) \<le> real ?n" using bb(1) by (simp only: of_nat_le_iff)
  then have r1: "(2::real) ^ (?b - 1) \<le> real ?n" by simp
  have "real ?n + 1 \<le> real (2 ^ ?b)"
    using bb(2) by (metis Suc_leI of_nat_Suc of_nat_le_iff add.commute)
  then have r2: "real ?n + 1 \<le> (2::real) ^ ?b" by simp
  have p1: "(2::real) powr real (?b - 1) = 2 ^ (?b - 1)" by (simp add: powr_realpow)
  have p2: "(2::real) powr real ?b = 2 ^ ?b" by (simp add: powr_realpow)
  have lo: "2 powr real_of_int (int ?b - 1) \<le> ?y"
    unfolding k p1 using r1 ny(1) by linarith
  have hi: "?y < 2 powr (real_of_int (int ?b - 1) + 1)"
    unfolding k p2 using r2 ny(2) by linarith
  have "\<lfloor>log 2 ?y\<rfloor> = int ?b - 1" using _ lo hi by (rule floor_log_unique) (use True in simp)
  then show ?thesis using True by (simp add: exponent_def)
next
  case False
  let ?y = "\<bar>x\<bar>"
  let ?z = "1 / ?y"
  let ?m = "nat (\<lceil>?z\<rceil> - 1)"
  let ?b = "bit_length ?m"
  have y: "0 < ?y" "?y < 1" using assms False by simp_all
  have z: "1 < ?z" using y by simp
  then have c: "2 \<le> \<lceil>?z\<rceil>" by linarith
  then have m: "0 < ?m" by simp
  have bb: "2 ^ (?b - 1) \<le> ?m" "?m < 2 ^ ?b" using bit_length_bounds [OF m] by simp_all
  have b: "0 < ?b" using m by (subst bit_length.simps) simp
  have "0 \<le> \<lceil>?z\<rceil> - 1" using c by linarith
  then have "real ?m = real_of_int (\<lceil>?z\<rceil> - 1)" by (rule of_nat_nat)
  then have rm: "real ?m = of_int \<lceil>?z\<rceil> - 1" by simp
  have mz: "real ?m < ?z" "?z \<le> real ?m + 1" unfolding rm by linarith+
  have "real (2 ^ (?b - 1)) \<le> real ?m" using bb(1) by (simp only: of_nat_le_iff)
  then have r1: "(2::real) ^ (?b - 1) \<le> real ?m" by simp
  have zl: "2 ^ (?b - 1) < ?z" using r1 mz(1) by linarith
  have "real ?m + 1 \<le> real (2 ^ ?b)"
    using bb(2) by (metis Suc_leI of_nat_Suc of_nat_le_iff add.commute)
  then have r2: "real ?m + 1 \<le> (2::real) ^ ?b" by simp
  have zh: "?z \<le> 2 ^ ?b" using r2 mz(2) by linarith
  have lo: "2 powr real_of_int (- int ?b) \<le> ?y"
  proof -
    have "1 \<le> 2 ^ ?b * ?y" using zh y(1) by (simp add: divide_le_eq)
    then have "1 / 2 ^ ?b \<le> ?y" by (simp add: divide_le_eq mult.commute)
    then show ?thesis by (simp add: powr_minus powr_realpow inverse_eq_divide)
  qed
  have hi: "?y < 2 powr (real_of_int (- int ?b) + 1)"
  proof -
    have "2 ^ (?b - 1) * ?y < 1" using zl y(1) by (simp add: less_divide_eq)
    then have "?y < 1 / 2 ^ (?b - 1)" by (simp add: less_divide_eq mult.commute)
    also have "\<dots> = 2 powr (- real (?b - 1))"
      by (simp add: powr_minus powr_realpow inverse_eq_divide)
    also have "- real (?b - 1) = real_of_int (- int ?b) + 1"
      using b by (simp add: of_nat_diff)
    finally show ?thesis .
  qed
  have "\<lfloor>log 2 ?y\<rfloor> = - int ?b" using y(1) lo hi by (rule floor_log_unique)
  then show ?thesis using False by (simp add: exponent_def)
qed

lemma double_log:
  "double x =
     (if x = 0 then 0
      else of_int (round_half_even (x / 2 powr (of_int \<lfloor>log 2 \<bar>x\<bar>\<rfloor> - 52)))
             * 2 powr (of_int \<lfloor>log 2 \<bar>x\<bar>\<rfloor> - 52))"
proof (cases "x = 0")
  case True
  then show ?thesis by (simp add: double_def)
next
  case False
  have "(2::real) powr real_of_int (exponent x - 52) = power_int 2 (exponent x - 52)"
    by (rule powr_real_of_int') simp_all
  then have "(2::real) powr (of_int \<lfloor>log 2 \<bar>x\<bar>\<rfloor> - 52) = power_int 2 (exponent x - 52)"
    using exponent_log [OF False] by simp
  then show ?thesis using False by (simp add: double_def)
qed


text \<open>The binade of a positive number.\<close>

lemma binade:
  assumes "0 < x"
  shows "2 powr of_int \<lfloor>log 2 x\<rfloor> \<le> x" "x < 2 powr (of_int \<lfloor>log 2 x\<rfloor> + 1)"
proof -
  have "of_int \<lfloor>log 2 x\<rfloor> \<le> log 2 x" by linarith
  then show "2 powr of_int \<lfloor>log 2 x\<rfloor> \<le> x"
    using le_log_iff [of 2 x "of_int \<lfloor>log 2 x\<rfloor>"] assms by (simp only:)
  have "log 2 x < of_int \<lfloor>log 2 x\<rfloor> + 1" by linarith
  then show "x < 2 powr (of_int \<lfloor>log 2 x\<rfloor> + 1)"
    using log_less_iff [of 2 x "of_int \<lfloor>log 2 x\<rfloor> + 1"] assms by (simp only:)
qed

lemma significand:
  assumes "0 < x"
  shows "2 ^ 52 \<le> x / 2 powr (of_int \<lfloor>log 2 x\<rfloor> - 52)"
    and "x / 2 powr (of_int \<lfloor>log 2 x\<rfloor> - 52) \<le> 2 ^ 53"
proof -
  let ?e = "of_int \<lfloor>log 2 x\<rfloor> :: real"
  have u: "0 < 2 powr (?e - 52)" by simp
  have a: "2 ^ 52 * 2 powr (?e - 52) = 2 powr ?e"
    by (simp add: powr_diff)
  have b: "2 ^ 53 * 2 powr (?e - 52) = 2 powr (?e + 1)"
    by (simp add: powr_diff powr_add)
  show "2 ^ 52 \<le> x / 2 powr (?e - 52)"
    using binade(1) [OF assms] a u by (simp add: le_divide_eq)
  show "x / 2 powr (?e - 52) \<le> 2 ^ 53"
    using binade(2) [OF assms] b u by (simp add: divide_le_eq)
qed

lemma double_zero: "double 0 = 0"
  by (simp add: double_log)

lemma double_pos_bounds:
  assumes "0 < x"
  shows "2 powr of_int \<lfloor>log 2 x\<rfloor> \<le> double x" "double x \<le> 2 powr (of_int \<lfloor>log 2 x\<rfloor> + 1)"
proof -
  let ?e = "of_int \<lfloor>log 2 x\<rfloor> :: real"
  let ?q = "x / 2 powr (?e - 52)"
  have d: "double x = of_int (round_half_even ?q) * 2 powr (?e - 52)"
    using assms by (simp add: double_log)
  have "round_half_even (of_int (2 ^ 52)) \<le> round_half_even ?q"
    by (rule round_half_even_mono) (use significand(1) [OF assms] in simp)
  then have lo: "(2 ^ 52 :: real) \<le> of_int (round_half_even ?q)"
    unfolding round_half_even_int by (metis of_int_le_iff of_int_numeral of_int_power)
  have "round_half_even ?q \<le> round_half_even (of_int (2 ^ 53))"
    by (rule round_half_even_mono) (use significand(2) [OF assms] in simp)
  then have hi: "of_int (round_half_even ?q) \<le> (2 ^ 53 :: real)"
    unfolding round_half_even_int by (metis of_int_le_iff of_int_numeral of_int_power)
  have "2 powr ?e = 2 ^ 52 * 2 powr (?e - 52)" by (simp add: powr_diff)
  also have "\<dots> \<le> of_int (round_half_even ?q) * 2 powr (?e - 52)"
    using lo by (intro mult_right_mono) simp_all
  finally show "2 powr ?e \<le> double x" unfolding d .
  have "of_int (round_half_even ?q) * 2 powr (?e - 52) \<le> 2 ^ 53 * 2 powr (?e - 52)"
    using hi by (intro mult_right_mono) simp_all
  also have "\<dots> = 2 powr (?e + 1)" by (simp add: powr_diff powr_add)
  finally show "double x \<le> 2 powr (?e + 1)" unfolding d .
qed

lemma double_pos:
  assumes "0 < x"
  shows "0 < double x"
proof -
  have "(0::real) < 2 powr of_int \<lfloor>log 2 x\<rfloor>" by simp
  then show ?thesis using double_pos_bounds(1) [OF assms] by linarith
qed

lemma double_mono_pos:
  assumes "0 < x" and "x \<le> y"
  shows "double x \<le> double y"
proof -
  have y: "0 < y" using assms by simp
  let ?ex = "\<lfloor>log 2 x\<rfloor>" and ?ey = "\<lfloor>log 2 y\<rfloor>"
  have le: "?ex \<le> ?ey" using assms by (intro floor_mono) simp
  show ?thesis
  proof (cases "?ex = ?ey")
    case True
    have "x / 2 powr (of_int ?ey - 52) \<le> y / 2 powr (of_int ?ey - 52)"
      using assms(2) by (simp add: divide_right_mono)
    then have "round_half_even (x / 2 powr (of_int ?ey - 52))
                 \<le> round_half_even (y / 2 powr (of_int ?ey - 52))"
      by (rule round_half_even_mono)
    then have "real_of_int (round_half_even (x / 2 powr (of_int ?ey - 52))) * 2 powr (of_int ?ey - 52)
                 \<le> real_of_int (round_half_even (y / 2 powr (of_int ?ey - 52))) * 2 powr (of_int ?ey - 52)"
      by (intro mult_right_mono) simp_all
    then show ?thesis using assms(1) y True by (simp add: double_log)
  next
    case False
    then have "?ex + 1 \<le> ?ey" using le by simp
    then have "(of_int ?ex :: real) + 1 \<le> of_int ?ey" by linarith
    then have "(2::real) powr (of_int ?ex + 1) \<le> 2 powr of_int ?ey" by simp
    then show ?thesis
      using double_pos_bounds(2) [OF assms(1)] double_pos_bounds(1) [OF y] by linarith
  qed
qed

lemma double_mono:
  assumes "0 \<le> x" and "x \<le> y"
  shows "double x \<le> double y"
proof (cases "x = 0")
  case True
  show ?thesis
  proof (cases "y = 0")
    case True
    then show ?thesis using \<open>x = 0\<close> by simp
  next
    case False
    then have "0 < y" using assms True by simp
    then show ?thesis using True double_pos [of y] by (simp add: double_zero)
  qed
next
  case False
  then have "0 < x" using assms(1) by simp
  then show ?thesis using assms(2) by (rule double_mono_pos)
qed

lemma double_nonneg: "0 \<le> x \<Longrightarrow> 0 \<le> double x"
  using double_mono [of 0 x] by (simp add: double_zero)

lemma double_error:
  assumes "0 < x"
  shows "double x \<le> x * (1 + 1 / 2 ^ 53)"
proof -
  let ?e = "of_int \<lfloor>log 2 x\<rfloor> :: real"
  let ?u = "2 powr (?e - 52)"
  let ?q = "x / ?u"
  have d: "double x = of_int (round_half_even ?q) * ?u"
    using assms by (simp add: double_log)
  have "of_int (round_half_even ?q) * ?u \<le> (?q + 1 / 2) * ?u"
    using round_half_even_error(1) [of ?q] by (intro mult_right_mono) simp_all
  also have "\<dots> = x + ?u / 2" by (simp add: distrib_right)
  also have "?u / 2 = 2 powr ?e / 2 ^ 53" by (simp add: powr_diff)
  also have "\<dots> \<le> x / 2 ^ 53" using binade(1) [OF assms] by (simp add: divide_right_mono)
  finally have "double x \<le> x + x / 2 ^ 53" unfolding d by simp
  then show ?thesis by (simp add: distrib_left)
qed

text \<open>Evaluating a rounding: scale the number into the significand's range.\<close>

lemma double_scaled:
  assumes "2 ^ 52 \<le> x * 2 ^ n" and "x * 2 ^ n < 2 ^ 53"
  shows "double x = of_int (round_half_even (x * 2 ^ n)) / 2 ^ n"
proof -
  have "(0::real) < 2 ^ 52" by simp
  then have "0 < x * 2 ^ n" using assms(1) by linarith
  then have pos: "0 < x" by (simp add: zero_less_mult_iff)
  have p: "(2::real) powr (52 - of_nat n) * 2 ^ n = 2 ^ 52"
    by (simp add: powr_diff powr_realpow)
  have p': "(2::real) powr (53 - of_nat n) * 2 ^ n = 2 ^ 53"
    by (simp add: powr_diff powr_realpow)
  have "2 powr (52 - of_nat n) * 2 ^ n \<le> x * 2 ^ n" using assms(1) p by simp
  then have "2 powr (52 - of_nat n) \<le> x" by (rule mult_right_le_imp_le) simp
  then have lo: "52 - real n \<le> log 2 x" using pos by (simp add: le_log_iff)
  have "x * 2 ^ n < 2 powr (53 - of_nat n) * 2 ^ n" using assms(2) p' by simp
  then have "x < 2 powr (53 - of_nat n)" by (rule mult_right_less_imp_less) simp
  then have hi: "log 2 x < 53 - real n" using pos by (simp add: log_less_iff)
  have "\<lfloor>log 2 x\<rfloor> = 52 - int n"
    by (rule floor_unique) (use lo hi in simp_all)
  then have e: "real_of_int \<lfloor>log 2 x\<rfloor> - 52 = - real n" by simp
  have u: "(2::real) powr (- real n) = 1 / 2 ^ n"
    by (simp add: powr_minus powr_realpow inverse_eq_divide)
  have ax: "\<bar>x\<bar> = x" using pos by simp
  show ?thesis unfolding double_log ax e u using pos by simp
qed

text \<open>The float literals of the code, and the two end points of a percentage.\<close>

lemma double_tenth: "double (1 / 10) = 3602879701896397 / 2 ^ 55"
  by (subst double_scaled [of _ 56]) (simp_all add: round_half_even_def)

lemma double_three_tenths: "double (3 / 10) = 5404319552844595 / 2 ^ 54"
  by (subst double_scaled [of _ 54]) (simp_all add: round_half_even_def)

lemma double_seven_tenths: "double (7 / 10) = 3152519739159347 / 2 ^ 52"
  by (subst double_scaled [of _ 53]) (simp_all add: round_half_even_def)

lemma double_ninety_eight: "double (98 / 100) = 2206763817411543 / 2 ^ 51"
  by (subst double_scaled [of _ 53]) (simp_all add: round_half_even_def)

lemma double_one: "double 1 = 1"
  by (subst double_scaled [of _ 52]) (simp_all add: round_half_even_def)

lemma double_hundred: "double 100 = 100"
  by (subst double_scaled [of _ 46]) (simp_all add: round_half_even_def)

section \<open>The species dictionary\<close>

lemma add_reads_map_of:
  "map_of (add_reads k r sc) = (map_of sc)(k \<mapsto> (case map_of sc k of None \<Rightarrow> r | Some c \<Rightarrow> c + r))"
  by (induction k r sc rule: add_reads.induct) (auto simp: fun_eq_iff)

lemma add_reads_keys:
  "map fst (add_reads k r sc) = (if k \<in> set (map fst sc) then map fst sc else map fst sc @ [k])"
  by (induction k r sc rule: add_reads.induct) auto

lemma add_reads_distinct:
  "distinct (map fst sc) \<Longrightarrow> distinct (map fst (add_reads k r sc))"
  by (simp add: add_reads_keys)

lemma count_loop_inv:
  "distinct (map fst sc) \<Longrightarrow> count_loop rows sc tot = (sc', tot') \<Longrightarrow>
     distinct (map fst sc') \<and>
     set (map fst sc') = set (map fst sc) \<union> species_key ` set rows \<and>
     (\<forall>k. lookup0 sc' k = lookup0 sc k + group_total rows k) \<and>
     tot' = tot + sum_list (map read_count rows)"
proof (induction rows arbitrary: sc tot)
  case Nil
  then show ?case by (simp add: group_total_def)
next
  case (Cons a rest)
  let ?sc1 = "add_reads (species_key a) (read_count a) sc"
  have d1: "distinct (map fst ?sc1)" using Cons.prems(1) by (rule add_reads_distinct)
  have run: "count_loop rest ?sc1 (tot + read_count a) = (sc', tot')"
    using Cons.prems(2) by simp
  note ih = Cons.IH [OF d1 run]
  have keys1: "set (map fst ?sc1) = insert (species_key a) (set (map fst sc))"
    by (auto simp: add_reads_keys)
  have look1: "lookup0 ?sc1 k = lookup0 sc k + (if species_key a = k then read_count a else 0)" for k
    by (auto simp: lookup0_def add_reads_map_of split: option.splits)
  have gt: "group_total (a # rest) k = (if species_key a = k then read_count a else 0) + group_total rest k" for k
    by (simp add: group_total_def)
  show ?case using ih keys1 by (auto simp: look1 gt)
qed

text \<open>species_counts from the empty dictionary\<close>

lemma species_counts_spec:
  assumes "count_loop rows [] 0 = (sc, tot)"
  shows "distinct (map fst sc)"
    and "set (map fst sc) = species_key ` set rows"
    and "(k, c) \<in> set sc \<Longrightarrow> c = group_total rows k"
    and "tot = sum_list (map read_count rows)"
proof -
  have inv: "distinct (map fst sc) \<and>
     set (map fst sc) = set (map fst ([]::(string \<times> int) list)) \<union> species_key ` set rows \<and>
     (\<forall>k. lookup0 sc k = lookup0 [] k + group_total rows k) \<and>
     tot = 0 + sum_list (map read_count rows)"
    by (rule count_loop_inv [OF _ assms]) simp
  show d: "distinct (map fst sc)" using inv by simp
  show "set (map fst sc) = species_key ` set rows" using inv by simp
  show "tot = sum_list (map read_count rows)" using inv by simp
  show "c = group_total rows k" if "(k, c) \<in> set sc"
  proof -
    have "map_of sc k = Some c" using d that by simp
    then have "lookup0 sc k = c" by (simp add: lookup0_def)
    then show ?thesis using inv by (simp add: lookup0_def)
  qed
qed

lemma length_filter_values:
  "distinct (map fst sc) \<Longrightarrow>
     length (filter P (map snd sc)) = card {k \<in> set (map fst sc). \<exists>c. (k, c) \<in> set sc \<and> P c}"
proof (induction sc)
  case Nil
  then show ?case by simp
next
  case (Cons kc sc)
  obtain k c where kc: "kc = (k, c)" by (cases kc)
  have notin: "k \<notin> fst ` set sc" and d: "distinct (map fst sc)"
    using Cons.prems kc by auto
  let ?S = "{k' \<in> set (map fst sc). \<exists>c'. (k', c') \<in> set sc \<and> P c'}"
  let ?T = "{k' \<in> set (map fst (kc # sc)). \<exists>c'. (k', c') \<in> set (kc # sc) \<and> P c'}"
  have fin: "finite ?S" by simp
  have knS: "k \<notin> ?S" using notin by auto
  have ih: "length (filter P (map snd sc)) = card ?S" by (rule Cons.IH [OF d])
  show ?case
  proof (cases "P c")
    case True
    have "?T = insert k ?S" using notin kc True by (auto simp: image_iff)
    then have "card ?T = Suc (card ?S)" using card_insert_disjoint [OF fin knS] by (simp only:)
    moreover have "length (filter P (map snd (kc # sc))) = Suc (length (filter P (map snd sc)))"
      using True kc by simp
    ultimately show ?thesis using ih by (simp only:)
  next
    case False
    have "?T = ?S" using notin kc False by (auto simp: image_iff)
    moreover have "length (filter P (map snd (kc # sc))) = length (filter P (map snd sc))"
      using False kc by simp
    ultimately show ?thesis using ih by (simp only:)
  qed
qed

lemma singletons_spec:
  assumes "count_loop rows [] 0 = (sc, tot)"
  shows "length (filter (\<lambda>c. c = n) (map snd sc)) = groups_with_count rows n"
proof -
  note sp = species_counts_spec [OF assms]
  have "{k \<in> set (map fst sc). \<exists>c. (k, c) \<in> set sc \<and> c = n}
          = {k \<in> species_key ` set rows. group_total rows k = n}"
  proof (rule Collect_cong, rule iffI)
    fix k assume "k \<in> set (map fst sc) \<and> (\<exists>c. (k, c) \<in> set sc \<and> c = n)"
    then show "k \<in> species_key ` set rows \<and> group_total rows k = n"
      using sp(2) sp(3) by auto
  next
    fix k assume h: "k \<in> species_key ` set rows \<and> group_total rows k = n"
    then have "k \<in> set (map fst sc)" using sp(2) by simp
    then obtain c where c: "(k, c) \<in> set sc" by auto
    then have "c = n" using sp(3) h by auto
    then show "k \<in> set (map fst sc) \<and> (\<exists>c. (k, c) \<in> set sc \<and> c = n)"
      using c \<open>k \<in> set (map fst sc)\<close> by auto
  qed
  then show ?thesis
    using length_filter_values [OF sp(1), of "\<lambda>c. c = n"] by (simp add: groups_with_count_def)
qed

lemma observed_spec:
  assumes "count_loop rows [] 0 = (sc, tot)"
  shows "length sc = card (species_key ` set rows)"
proof -
  note sp = species_counts_spec [OF assms]
  have "length sc = length (map fst sc)" by simp
  also have "\<dots> = card (set (map fst sc))" using sp(1) by (simp only: distinct_card)
  finally show ?thesis using sp(2) by simp
qed

lemma add_reads_sum: "sum_list (map snd (add_reads k r sc)) = sum_list (map snd sc) + r"
  by (induction k r sc rule: add_reads.induct) auto

lemma count_loop_sum:
  "count_loop rows sc tot = (sc', tot') \<Longrightarrow>
     sum_list (map snd sc') = sum_list (map snd sc) + sum_list (map read_count rows)"
  by (induction rows arbitrary: sc tot) (auto simp: add_reads_sum)

lemma sum_list_ge_length:
  fixes xs :: "int list"
  shows "\<forall>x\<in>set xs. 1 \<le> x \<Longrightarrow> int (length xs) \<le> sum_list xs"
  by (induction xs) auto

lemma member_le_sum:
  fixes xs :: "int list"
  shows "\<forall>x\<in>set xs. 1 \<le> x \<Longrightarrow> c \<in> set xs \<Longrightarrow> c + int (length xs) - 1 \<le> sum_list xs"
proof (induction xs)
  case Nil
  then show ?case by simp
next
  case (Cons x xs)
  have all: "\<forall>x\<in>set xs. 1 \<le> x" using Cons.prems(1) by simp
  show ?case
  proof (cases "c \<in> set xs")
    case True
    have "c + int (length xs) - 1 \<le> sum_list xs" using Cons.IH [OF all True] .
    moreover have "1 \<le> x" using Cons.prems(1) by simp
    ultimately show ?thesis by simp
  next
    case False
    then have "c = x" using Cons.prems(2) by simp
    then show ?thesis using sum_list_ge_length [OF all] by simp
  qed
qed

lemma group_counts_positive:
  assumes run: "count_loop rows [] 0 = (sc, tot)"
    and pos: "\<forall>a\<in>set rows. 1 \<le> read_count a"
  shows "\<forall>c\<in>set (map snd sc). 1 \<le> c"
proof
  fix c assume "c \<in> set (map snd sc)"
  then obtain k where kc: "(k, c) \<in> set sc" by auto
  note sp = species_counts_spec [OF run]
  have c: "c = group_total rows k" using sp(3) kc .
  have "k \<in> set (map fst sc)" using kc by force
  then have "k \<in> species_key ` set rows" using sp(2) by simp
  then obtain a where a: "a \<in> set rows" "species_key a = k" by auto
  let ?g = "filter (\<lambda>a. species_key a = k) rows"
  have ne: "?g \<noteq> []" using a by (auto simp: filter_empty_conv)
  have "\<forall>x\<in>set (map read_count ?g). 1 \<le> x" using pos by auto
  then have "int (length (map read_count ?g)) \<le> sum_list (map read_count ?g)"
    by (rule sum_list_ge_length)
  moreover have "1 \<le> int (length (map read_count ?g))" using ne by (cases ?g) auto
  ultimately show "1 \<le> c" unfolding c group_total_def by linarith
qed

section \<open>The diversity loops\<close>

lemma shannon_loop_sum:
  "0 < tot \<Longrightarrow>
     shannon_loop cs tot (Finite x) = Inr (Finite (x - sum_list (map (shannon_term tot) cs)))"
  by (induction cs arbitrary: x) (simp_all add: shannon_term_def np_log_def Let_def)

lemma simpson_loop_sum:
  "tot \<noteq> 0 \<Longrightarrow>
     simpson_loop cs tot x = Inr (x + sum_list (map (simpson_term tot) cs))"
  by (induction cs arbitrary: x) (simp_all add: simpson_term_def Let_def)

lemma shannon_term_neg:
  assumes "1 \<le> c" "c < tot"
  shows "shannon_term tot c < 0"
proof -
  let ?p = "real_of_int c / real_of_int tot"
  have "0 < ?p" "?p < 1" using assms by auto
  then have "ln ?p < 0" by simp
  then have "?p * ln ?p < 0" using \<open>0 < ?p\<close> by (intro mult_pos_neg) auto
  moreover have "0 < c" using assms by simp
  ultimately show ?thesis unfolding shannon_term_def by (simp only: if_True)
qed

lemma sum_list_neg:
  fixes f :: "int \<Rightarrow> real"
  shows "xs \<noteq> [] \<Longrightarrow> \<forall>x\<in>set xs. f x < 0 \<Longrightarrow> sum_list (map f xs) < 0"
proof (induction xs)
  case Nil
  then show ?case by simp
next
  case (Cons x xs)
  show ?case
  proof (cases "xs = []")
    case True
    then show ?thesis using Cons.prems by simp
  next
    case False
    then have "sum_list (map f xs) < 0" using Cons by simp
    moreover have "f x < 0" using Cons.prems by simp
    ultimately show ?thesis by simp
  qed
qed

lemma sum_list_strict_pos:
  fixes f :: "int \<Rightarrow> real"
  shows "xs \<noteq> [] \<Longrightarrow> \<forall>x\<in>set xs. 0 < f x \<Longrightarrow> 0 < sum_list (map f xs)"
proof (induction xs)
  case Nil
  then show ?case by simp
next
  case (Cons x xs)
  show ?case
  proof (cases "xs = []")
    case True
    then show ?thesis using Cons.prems by simp
  next
    case False
    then have "0 < sum_list (map f xs)" using Cons by simp
    moreover have "0 < f x" using Cons.prems by simp
    ultimately show ?thesis by simp
  qed
qed

text \<open>Shannon on a list of positive counts adding up to the total\<close>

lemma shannon_sum_zero_iff:
  assumes pos: "\<forall>c\<in>set cs. 1 \<le> c" and ne: "cs \<noteq> []" and tot: "sum_list cs = tot"
  shows "sum_list (map (shannon_term tot) cs) = 0 \<longleftrightarrow> length cs = 1"
proof (cases "length cs = 1")
  case True
  then obtain c where cs: "cs = [c]" by (cases cs) auto
  then have "c = tot" "1 \<le> c" using tot pos by auto
  then show ?thesis using True cs by (simp add: shannon_term_def)
next
  case False
  moreover have "length cs \<noteq> 0" using ne by simp
  ultimately have len: "2 \<le> length cs" by linarith
  have "\<forall>c\<in>set cs. shannon_term tot c < 0"
  proof
    fix c assume c: "c \<in> set cs"
    have "c + int (length cs) - 1 \<le> tot" using member_le_sum [OF pos c] tot by simp
    then have "c < tot" using len by linarith
    moreover have "1 \<le> c" using pos c by simp
    ultimately show "shannon_term tot c < 0" by (rule shannon_term_neg [rotated])
  qed
  then have "sum_list (map (shannon_term tot) cs) < 0" using ne by (intro sum_list_neg) auto
  then show ?thesis using False by simp
qed

lemma sum_list_divide:
  fixes cs :: "int list"
  shows "sum_list (map (\<lambda>c. real_of_int c / t) cs) = real_of_int (sum_list cs) / t"
  by (induction cs) (simp_all add: add_divide_distrib)

lemma simpson_sum_bounds:
  assumes pos: "\<forall>c\<in>set cs. 1 \<le> c" and ne: "cs \<noteq> []" and tot: "sum_list cs = tot"
  shows "0 < sum_list (map (simpson_term tot) cs)" and "sum_list (map (simpson_term tot) cs) \<le> 1"
proof -
  have tpos: "0 < tot" using sum_list_ge_length [OF pos] ne tot by (cases cs) auto
  have le: "c \<le> tot" if "c \<in> set cs" for c
    using member_le_sum [OF pos that] tot ne by (cases cs) auto
  have each: "simpson_term tot c \<le> real_of_int c / real_of_int tot" if c: "c \<in> set cs" for c
  proof -
    let ?p = "real_of_int c / real_of_int tot"
    have "0 < ?p" "?p \<le> 1" using pos c le [OF c] tpos by auto
    then have "?p * ?p \<le> ?p * 1" by (intro mult_left_mono) auto
    then have "?p * ?p \<le> ?p" by simp
    moreover have "0 < c" using pos c by auto
    ultimately show ?thesis unfolding simpson_term_def by (simp only: if_True)
  qed
  have "sum_list (map (simpson_term tot) cs) \<le> sum_list (map (\<lambda>c. real_of_int c / real_of_int tot) cs)"
    by (rule sum_list_mono) (use each in auto)
  also have "\<dots> = 1" using tot tpos by (simp add: sum_list_divide)
  finally show "sum_list (map (simpson_term tot) cs) \<le> 1" .
  have gt: "0 < simpson_term tot c" if c: "c \<in> set cs" for c
    using pos c tpos by (auto simp: simpson_term_def)
  show "0 < sum_list (map (simpson_term tot) cs)"
    by (rule sum_list_strict_pos [OF ne]) (use gt in auto)
qed

section \<open>The function around the computation\<close>

lemma insert_row_set: "set (insert_row a rows) = insert a (set rows)"
  by (induction rows) auto

lemma order_by_set: "set (order_by rows) = set rows"
  unfolding order_by_def by (induction rows) (simp_all add: insert_row_set)

lemma taxonomic_assignments_set:
  "set (taxonomic_assignments d sid) = {a \<in> set (assignments d). sample a = sid}"
  by (simp add: taxonomic_assignments_def order_by_set)

lemma metrics_of_fields:
  assumes "metrics_of rows = Inr m"
  obtains sc tot sh ss where
    "count_loop rows [] 0 = (sc, tot)"
    "shannon_loop (map snd sc) tot (Finite 0) = Inr sh"
    "simpson_loop (map snd sc) tot 0 = Inr ss"
    "shannon_diversity m = sh"
    "simpson_diversity m = 1 - ss"
    "chao1_richness m = chao1 sc"
    "observed_otus m = length sc"
    "total_sequences m = tot"
    "assigned_sequences m = length rows"
    "novel_sequences m = length (filter is_novel_taxon rows)"
    "assignment_rate m = (if 0 < tot then real (length rows) / real_of_int tot else 0)"
    "protist_percentage m = percentage (group_reads protist_phylums rows) tot"
    "metazoan_percentage m = percentage (group_reads metazoan_phylums rows) tot"
    "cnidarian_percentage m = percentage (group_reads cnidarian_phylums rows) tot"
    "fungi_percentage m = percentage (group_reads fungi_phylums rows) tot"
proof -
  obtain sc tot where cl: "count_loop rows [] 0 = (sc, tot)" by (cases "count_loop rows [] 0")
  from assms cl obtain sh where sh: "shannon_loop (map snd sc) tot (Finite 0) = Inr sh"
    by (cases "shannon_loop (map snd sc) tot (Finite 0)") (simp_all add: metrics_of_def)
  from assms cl sh obtain ss where ss: "simpson_loop (map snd sc) tot 0 = Inr ss"
    by (cases "simpson_loop (map snd sc) tot 0") (simp_all add: metrics_of_def)
  from assms cl sh ss have m: "m = \<lparr> shannon_diversity = sh,
                        simpson_diversity = 1 - ss,
                        chao1_richness = chao1 sc,
                        observed_otus = length sc,
                        total_sequences = tot,
                        assigned_sequences = length rows,
                        novel_sequences = length (filter is_novel_taxon rows),
                        assignment_rate =
                          (if 0 < tot
                           then real (length rows) / real_of_int tot else 0),
                        protist_percentage =
                          percentage (group_reads protist_phylums rows) tot,
                        metazoan_percentage =
                          percentage (group_reads metazoan_phylums rows) tot,
                        cnidarian_percentage =
                          percentage (group_reads cnidarian_phylums rows) tot,
                        fungi_percentage =
                          percentage (group_reads fungi_phylums rows) tot \<rparr>"
    by (simp add: metrics_of_def)
  show thesis
    by (rule that [OF cl sh ss]) (simp_all add: m)
qed

lemma handle_raised_fails: "\<not> succeeded (handle_exceptions (d, Raised e))"
  by (cases e) simp_all

lemma update_or_create_Inr:
  "update_or_create d sid m = Inr d' \<Longrightarrow> d' = d\<lparr>metrics := (metrics d)(sid \<mapsto> m)\<rparr>"
  by (simp add: update_or_create_def split: if_splits)

lemma calculate_succeeded:
  assumes "succeeded (calculate_biodiversity_metrics d sid)"
  obtains m where "metrics_of (taxonomic_assignments d sid) = Inr m"
    and "taxonomic_assignments d sid \<noteq> []"
    and "metrics (fst (calculate_biodiversity_metrics d sid)) sid = Some m"
proof -
  from assms obtain smp where smp: "samples d sid = Some smp"
    by (cases "samples d sid") (simp_all add: calculate_biodiversity_metrics_def calculate_body_def)
  from assms smp have ne: "taxonomic_assignments d sid \<noteq> []"
    by (auto simp: calculate_biodiversity_metrics_def calculate_body_def Let_def)
  from assms smp ne obtain m where m: "metrics_of (taxonomic_assignments d sid) = Inr m"
    by (cases "metrics_of (taxonomic_assignments d sid)")
       (auto simp: calculate_biodiversity_metrics_def calculate_body_def Let_def
             handle_raised_fails)
  from assms smp ne m obtain d' where w: "update_or_create d sid m = Inr d'"
    by (cases "update_or_create d sid m")
       (auto simp: calculate_biodiversity_metrics_def calculate_body_def Let_def
             handle_raised_fails)
  have "metrics (fst (calculate_biodiversity_metrics d sid)) sid = Some m"
    using smp ne m w update_or_create_Inr [OF w]
    by (simp add: calculate_biodiversity_metrics_def calculate_body_def Let_def)
  then show thesis using that m ne by blast
qed

lemma metrics_of_total:
  assumes ne: "rows \<noteq> []" and pos: "\<forall>a\<in>set rows. 1 \<le> read_count a"
  obtains m where "metrics_of rows = Inr m"
proof -
  obtain sc tot where cl: "count_loop rows [] 0 = (sc, tot)" by (cases "count_loop rows [] 0")
  have tot: "tot = sum_list (map read_count rows)" using species_counts_spec(4) [OF cl] .
  have "\<forall>x\<in>set (map read_count rows). 1 \<le> x" using pos by simp
  then have "int (length (map read_count rows)) \<le> sum_list (map read_count rows)"
    by (rule sum_list_ge_length)
  then have tpos: "0 < tot" using ne tot by (cases rows) auto
  have sh: "shannon_loop (map snd sc) tot (Finite 0)
              = Inr (Finite (0 - sum_list (map (shannon_term tot) (map snd sc))))"
    using tpos by (rule shannon_loop_sum)
  have ss: "simpson_loop (map snd sc) tot 0 = Inr (0 + sum_list (map (simpson_term tot) (map snd sc)))"
    using tpos by (intro simpson_loop_sum) simp
  have "\<exists>m. metrics_of rows = Inr m"
    by (simp add: metrics_of_def cl sh ss Let_def)
  then show thesis using that by blast
qed

lemma calculate_total:
  assumes "samples d sid = Some smp" and "taxonomic_assignments d sid \<noteq> []"
    and "\<forall>a\<in>set (taxonomic_assignments d sid). 1 \<le> read_count a"
    and "sum_list (map read_count (taxonomic_assignments d sid)) \<le> integer_max d"
  shows "succeeded (calculate_biodiversity_metrics d sid)"
proof -
  let ?rows = "taxonomic_assignments d sid"
  obtain m where m: "metrics_of ?rows = Inr m"
    using metrics_of_total [OF assms(2,3)] by blast
  from m obtain sc tot where cl: "count_loop ?rows [] 0 = (sc, tot)"
    and ob: "observed_otus m = length sc" and t: "total_sequences m = tot"
    and a: "assigned_sequences m = length ?rows"
    and n: "novel_sequences m = length (filter is_novel_taxon ?rows)"
    by (rule metrics_of_fields)
  have tot: "tot = sum_list (map read_count ?rows)" using species_counts_spec(4) [OF cl] .
  have "\<forall>x\<in>set (map read_count ?rows). 1 \<le> x" using assms(3) by simp
  then have "int (length (map read_count ?rows)) \<le> sum_list (map read_count ?rows)"
    by (rule sum_list_ge_length)
  then have len: "int (length ?rows) \<le> tot" using tot by simp
  have "length sc = card (species_key ` set ?rows)" using cl by (rule observed_spec)
  also have "\<dots> \<le> card (set ?rows)" by (rule card_image_le) simp
  also have "\<dots> \<le> length ?rows" by (rule card_length)
  finally have obs: "int (length sc) \<le> int (length ?rows)" by simp
  have nov: "int (length (filter is_novel_taxon ?rows)) \<le> int (length ?rows)" by simp
  have top: "tot \<le> integer_max d" using assms(4) tot by simp
  have "fits_column d (int (observed_otus m)) \<and> fits_column d (total_sequences m) \<and>
        fits_column d (int (assigned_sequences m)) \<and> fits_column d (int (novel_sequences m))"
    unfolding fits_column_def ob t a n using len obs nov top by (intro conjI) linarith+
  then have "update_or_create d sid m = Inr (d\<lparr>metrics := (metrics d)(sid \<mapsto> m)\<rparr>)"
    by (simp add: update_or_create_def)
  then show ?thesis using m assms(1,2)
    by (simp add: calculate_biodiversity_metrics_def calculate_body_def Let_def)
qed

text \<open>
  When the total of the reads is beyond the column range, the write raises: the function
  returns the error dictionary and stores nothing.
\<close>

lemma calculate_overflow:
  assumes "samples d sid = Some smp" and "taxonomic_assignments d sid \<noteq> []"
    and "\<forall>a\<in>set (taxonomic_assignments d sid). 1 \<le> read_count a"
    and "integer_max d < sum_list (map read_count (taxonomic_assignments d sid))"
  shows "calculate_biodiversity_metrics d sid = (d, Returned (Error_exception DataError))"
proof -
  let ?rows = "taxonomic_assignments d sid"
  obtain m where m: "metrics_of ?rows = Inr m"
    using metrics_of_total [OF assms(2,3)] by blast
  from m obtain sc tot where cl: "count_loop ?rows [] 0 = (sc, tot)"
    and t: "total_sequences m = tot"
    by (rule metrics_of_fields)
  have tot: "tot = sum_list (map read_count ?rows)" using species_counts_spec(4) [OF cl] .
  have "\<not> fits_column d (total_sequences m)"
    unfolding fits_column_def t using assms(4) tot by simp
  then have "update_or_create d sid m = Inl DataError" by (simp add: update_or_create_def)
  then show ?thesis using m assms(1,2)
    by (simp add: calculate_biodiversity_metrics_def calculate_body_def Let_def)
qed

lemma overflow_example:
  "calculate_biodiversity_metrics (example_db rows_overflow) 1
     = (example_db rows_overflow, Returned (Error_exception DataError))"
  by (rule calculate_overflow [where smp = "\<lparr> sample_id = ''S1'' \<rparr>"])
     (simp_all add: example_defs task_defs)

lemma insert_row_length: "length (insert_row a rows) = Suc (length rows)"
  by (induction rows) auto

lemma order_by_length: "length (order_by rows) = length rows"
  unfolding order_by_def by (induction rows) (simp_all add: insert_row_length)

lemma chao1_ge_length: "real (length sc) \<le> chao1 sc"
  by (simp add: chao1_def)

section \<open>Claims about calculate_biodiversity_metrics\<close>

text \<open>
  C1, as the specification states it, counts as assigned only the assignments whose
  confidence level is not \<open>uncertain\<close>. The function counts every assignment of the sample
  (\<open>assignments.count()\<close>): one uncertain assignment with one read gives
  \<open>assigned_sequences = 1\<close> and \<open>assignment_rate = 1\<close>, where the specification's count is 0.
\<close>

theorem assignment_rate_counterexample:
  "map_option assigned_sequences
     (metrics (fst (calculate_biodiversity_metrics (example_db rows_uncertain) 1)) 1) = Some 1 \<and>
   map_option assignment_rate
     (metrics (fst (calculate_biodiversity_metrics (example_db rows_uncertain) 1)) 1) = Some 1 \<and>
   claimed_assigned_sequences (taxonomic_assignments (example_db rows_uncertain) 1) = 0"
  by (simp add: example_defs task_defs metrics_defs claimed_assigned_sequences_def)

text \<open>
  C1 (amended): whenever the function succeeds, the stored \<open>assigned_sequences\<close> is the number of
  all assignments of the sample, whatever their confidence level, \<open>total_sequences\<close> is the
  sum of their read counts, and \<open>assignment_rate\<close> is the quotient of the two (0 when the
  sum of read counts is not positive).
\<close>

theorem assignment_rate_counts_all:
  assumes "succeeded (calculate_biodiversity_metrics d sid)"
  shows "\<exists>m. metrics (fst (calculate_biodiversity_metrics d sid)) sid = Some m \<and>
           assigned_sequences m = length (filter (\<lambda>a. sample a = sid) (assignments d)) \<and>
           total_sequences m = sum_list (map read_count (taxonomic_assignments d sid)) \<and>
           assignment_rate m =
             (if 0 < total_sequences m
              then real (assigned_sequences m) / real_of_int (total_sequences m) else 0)"
proof -
  from assms obtain m where m: "metrics_of (taxonomic_assignments d sid) = Inr m"
    and st: "metrics (fst (calculate_biodiversity_metrics d sid)) sid = Some m"
    by (rule calculate_succeeded)
  from m obtain sc tot where cl: "count_loop (taxonomic_assignments d sid) [] 0 = (sc, tot)"
    and t: "total_sequences m = tot"
    and a: "assigned_sequences m = length (taxonomic_assignments d sid)"
    and r: "assignment_rate m =
              (if 0 < tot then real (length (taxonomic_assignments d sid)) / real_of_int tot else 0)"
    by (rule metrics_of_fields)
  have "tot = sum_list (map read_count (taxonomic_assignments d sid))"
    using species_counts_spec(4) [OF cl] .
  moreover have "length (taxonomic_assignments d sid) = length (filter (\<lambda>a. sample a = sid) (assignments d))"
    by (simp add: taxonomic_assignments_def order_by_length)
  ultimately show ?thesis using st t a r by simp
qed

theorem assignment_rate_counts_all_witness:
  "succeeded (calculate_biodiversity_metrics (example_db rows_abc) 1) \<and>
   (\<exists>m. metrics (fst (calculate_biodiversity_metrics (example_db rows_abc) 1)) 1 = Some m \<and>
        assigned_sequences m = 4 \<and> total_sequences m = 4 \<and> assignment_rate m = 1)"
proof -
  have s: "succeeded (calculate_biodiversity_metrics (example_db rows_abc) 1)"
    by (simp add: example_defs task_defs metrics_defs)
  have rows: "sum_list (map read_count (taxonomic_assignments (example_db rows_abc) 1)) = 4"
    by (simp add: example_defs task_defs)
  have len: "length (filter (\<lambda>a. sample a = 1) (assignments (example_db rows_abc))) = 4"
    by (simp add: example_defs)
  from assignment_rate_counts_all [OF s] obtain m where
    "metrics (fst (calculate_biodiversity_metrics (example_db rows_abc) 1)) 1 = Some m"
    "assigned_sequences m = length (filter (\<lambda>a. sample a = 1) (assignments (example_db rows_abc)))"
    "total_sequences m = sum_list (map read_count (taxonomic_assignments (example_db rows_abc) 1))"
    "assignment_rate m =
             (if 0 < total_sequences m
              then real (assigned_sequences m) / real_of_int (total_sequences m) else 0)"
    by blast
  then have "metrics (fst (calculate_biodiversity_metrics (example_db rows_abc) 1)) 1 = Some m \<and>
        assigned_sequences m = 4 \<and> total_sequences m = 4 \<and> assignment_rate m = 1"
    using rows len by simp
  then show ?thesis using s by blast
qed

text \<open>
  C2: the species key is the species name when present and \<open>"{genus}_sp"\<close> otherwise, but
  the last alternative of the \<open>or\<close> chain is dead: an f-string ending in \<open>_sp\<close> is never
  empty. With neither species nor genus the key is \<open>None_sp\<close> (both \<open>NULL\<close>) or \<open>_sp\<close>
  (both blank), never \<open>Unknown\<close>.
\<close>

theorem species_key_never_unknown:
  "species_key (example_row ''q1'' None None None ''uncertain'' 0 1) = ''None_sp'' \<and>
   species_key (example_row ''q1'' None (Some []) (Some []) ''uncertain'' 0 1) = ''_sp''"
  by (simp add: species_key_def example_row_def)

text \<open>
  C3, as the specification states it, has the call raise. The function returns normally: on a
  sample without assignments the result is the dictionary
  \<open>{'error': 'No taxonomic assignments found for sample'}\<close>, and no exception leaves the function.
\<close>

theorem empty_set_counterexample:
  "calculate_biodiversity_metrics (example_db []) 1 = (example_db [], Returned Error_no_assignments) \<and>
   \<not> is_raised (snd (calculate_biodiversity_metrics (example_db []) 1))"
  by (simp add: example_defs task_defs)

text \<open>
  C3 (amended): for an existing sample with no assignments the function returns the error
  dictionary and the database is unchanged; in particular no \<open>BiodiversityMetrics\<close> row is
  created or updated.
\<close>

theorem empty_set_returns_error:
  assumes "samples d sid = Some smp" and "taxonomic_assignments d sid = []"
  shows "calculate_biodiversity_metrics d sid = (d, Returned Error_no_assignments)"
  using assms by (simp add: calculate_biodiversity_metrics_def calculate_body_def)

theorem empty_set_returns_error_witness:
  "calculate_biodiversity_metrics (example_db []) 1 = (example_db [], Returned Error_no_assignments)"
proof -
  have s: "samples (example_db []) 1 = Some \<lparr> sample_id = ''S1'' \<rparr>"
    by (simp add: example_db_def)
  have e: "taxonomic_assignments (example_db []) 1 = []"
    by (simp add: example_db_def taxonomic_assignments_def order_by_def)
  show ?thesis using empty_set_returns_error [OF s e] .
qed

text \<open>
  C4: whenever the function succeeds, the stored \<open>chao1_richness\<close> is at least \<open>observed_otus\<close>,
  the number of distinct species keys. With \<open>f1\<close> the number of keys holding exactly one read
  and \<open>f2\<close> the number holding exactly two, it is \<open>observed_otus + f1 * f1 / (2 * f2)\<close> when
  \<open>f2 > 0\<close> and \<open>observed_otus\<close> when \<open>f2 = 0\<close>.
\<close>

theorem chao1_at_least_observed:
  assumes "succeeded (calculate_biodiversity_metrics d sid)"
  shows "\<exists>m. metrics (fst (calculate_biodiversity_metrics d sid)) sid = Some m \<and>
           real (observed_otus m) \<le> chao1_richness m \<and>
           observed_otus m = card (species_key ` set (taxonomic_assignments d sid)) \<and>
           (0 < groups_with_count (taxonomic_assignments d sid) 2 \<longrightarrow>
              chao1_richness m =
                real (observed_otus m) +
                real (groups_with_count (taxonomic_assignments d sid) 1 *
                      groups_with_count (taxonomic_assignments d sid) 1) /
                real (2 * groups_with_count (taxonomic_assignments d sid) 2)) \<and>
           (groups_with_count (taxonomic_assignments d sid) 2 = 0 \<longrightarrow>
              chao1_richness m = real (observed_otus m))"
proof -
  let ?rows = "taxonomic_assignments d sid"
  from assms obtain m where m: "metrics_of ?rows = Inr m"
    and st: "metrics (fst (calculate_biodiversity_metrics d sid)) sid = Some m"
    by (rule calculate_succeeded)
  from m obtain sc tot where cl: "count_loop ?rows [] 0 = (sc, tot)"
    and c: "chao1_richness m = chao1 sc" and ob: "observed_otus m = length sc"
    by (rule metrics_of_fields)
  have f1: "singletons sc = groups_with_count ?rows 1"
    unfolding singletons_def by (rule singletons_spec [OF cl])
  have f2: "doubletons sc = groups_with_count ?rows 2"
    unfolding doubletons_def by (rule singletons_spec [OF cl])
  have h1: "real (observed_otus m) \<le> chao1_richness m"
    using c ob chao1_ge_length [of sc] by simp
  have h2: "observed_otus m = card (species_key ` set ?rows)"
    using ob observed_spec [OF cl] by simp
  have h3: "0 < groups_with_count ?rows 2 \<longrightarrow>
              chao1_richness m =
                real (observed_otus m) +
                real (groups_with_count ?rows 1 * groups_with_count ?rows 1) /
                real (2 * groups_with_count ?rows 2)"
    using c ob f1 f2 by (simp add: chao1_def)
  have h4: "groups_with_count ?rows 2 = 0 \<longrightarrow> chao1_richness m = real (observed_otus m)"
    using c ob f2 by (simp add: chao1_def)
  show ?thesis by (intro exI [of _ m] conjI st h1 h2 h3 h4)
qed

theorem chao1_at_least_observed_witness:
  "succeeded (calculate_biodiversity_metrics (example_db rows_abc) 1) \<and>
   (\<exists>m. metrics (fst (calculate_biodiversity_metrics (example_db rows_abc) 1)) 1 = Some m \<and>
        real (observed_otus m) \<le> chao1_richness m)"
proof -
  have s: "succeeded (calculate_biodiversity_metrics (example_db rows_abc) 1)"
    by (simp add: example_defs task_defs metrics_defs)
  from chao1_at_least_observed [OF s] show ?thesis using s by blast
qed

lemma counts_sum_total:
  assumes "count_loop rows [] 0 = (sc, tot)"
  shows "sum_list (map snd sc) = tot"
  using count_loop_sum [OF assms] species_counts_spec(4) [OF assms] by simp

lemma species_counts_nonempty:
  assumes "count_loop rows [] 0 = (sc, tot)" and "rows \<noteq> []"
  shows "sc \<noteq> []"
proof -
  have "set (map fst sc) = species_key ` set rows" using species_counts_spec(2) [OF assms(1)] .
  then have "set (map fst sc) \<noteq> {}" using assms(2) by simp
  then show ?thesis by auto
qed

text \<open>A sum over the counts of the dictionary is a sum over the species keys.\<close>

lemma counts_sum_over_keys:
  assumes "count_loop rows [] 0 = (sc, tot)"
  shows "sum_list (map f (map snd sc)) = (\<Sum>k\<in>species_key ` set rows. f (group_total rows k))"
proof -
  note sp = species_counts_spec [OF assms]
  have "map f (map snd sc) = map (\<lambda>k. f (group_total rows k)) (map fst sc)"
    using sp(3) by (auto simp: map_eq_conv)
  then have "sum_list (map f (map snd sc))
               = sum_list (map (\<lambda>k. f (group_total rows k)) (map fst sc))"
    by (simp only:)
  also have "\<dots> = (\<Sum>k\<in>set (map fst sc). f (group_total rows k))"
    using sp(1) by (rule sum_list_distinct_conv_sum_set)
  finally show ?thesis using sp(2) by (simp only:)
qed

lemma group_total_positive:
  assumes "\<forall>a\<in>set rows. 1 \<le> read_count a" and "k \<in> species_key ` set rows"
  shows "1 \<le> group_total rows k"
proof -
  obtain sc tot where cl: "count_loop rows [] 0 = (sc, tot)" by (cases "count_loop rows [] 0")
  note sp = species_counts_spec [OF cl]
  from assms(2) sp(2) have "k \<in> set (map fst sc)" by simp
  then obtain c where kc: "(k, c) \<in> set sc" by auto
  then have "c \<in> set (map snd sc)" by force
  then have "1 \<le> c" using group_counts_positive [OF cl assms(1)] by blast
  then show ?thesis using sp(3) [OF kc] by simp
qed

text \<open>
  C5: on a non-empty set of assignments that all have a read count of at least 1, the
  computed Shannon diversity is \<open>H = - \<Sum> p * ln p\<close>, summed over the species keys with \<open>p\<close>
  the proportion of the key's reads, and it is 0 exactly when there is one species key,
  that is, when one group holds all the reads. It is what a successful call stores, and
  the call succeeds when the sample exists and the total of the reads fits an integer
  column.
\<close>

theorem shannon_zero_iff_single_group:
  assumes "taxonomic_assignments d sid \<noteq> []"
    and "\<forall>a\<in>set (taxonomic_assignments d sid). 1 \<le> read_count a"
  shows "\<exists>m. metrics_of (taxonomic_assignments d sid) = Inr m \<and>
           shannon_diversity m =
             Finite (- (\<Sum>k\<in>species_key ` set (taxonomic_assignments d sid).
                          proportion (taxonomic_assignments d sid) k *
                          ln (proportion (taxonomic_assignments d sid) k))) \<and>
           (shannon_diversity m = Finite 0 \<longleftrightarrow>
              card (species_key ` set (taxonomic_assignments d sid)) = 1) \<and>
           (succeeded (calculate_biodiversity_metrics d sid) \<longrightarrow>
              metrics (fst (calculate_biodiversity_metrics d sid)) sid = Some m) \<and>
           (samples d sid \<noteq> None \<and>
            sum_list (map read_count (taxonomic_assignments d sid)) \<le> integer_max d \<longrightarrow>
              succeeded (calculate_biodiversity_metrics d sid))"
proof -
  let ?rows = "taxonomic_assignments d sid"
  have rows: "?rows \<noteq> []" using assms(1) .
  obtain m where m: "metrics_of ?rows = Inr m"
    using metrics_of_total [OF assms] by blast
  from m obtain sc tot sh where cl: "count_loop ?rows [] 0 = (sc, tot)"
    and run: "shannon_loop (map snd sc) tot (Finite 0) = Inr sh"
    and sh: "shannon_diversity m = sh"
    by (rule metrics_of_fields)
  have pos: "\<forall>c\<in>set (map snd sc). 1 \<le> c" using cl assms(2) by (rule group_counts_positive)
  have ne: "map snd sc \<noteq> []" using species_counts_nonempty [OF cl rows] by simp
  have total: "sum_list (map snd sc) = tot" using cl by (rule counts_sum_total)
  have tot: "tot = sum_list (map read_count ?rows)" using species_counts_spec(4) [OF cl] .
  have tpos: "0 < tot" using sum_list_ge_length [OF pos] ne total by (cases sc) auto
  have val: "sh = Finite (- sum_list (map (shannon_term tot) (map snd sc)))"
    using run shannon_loop_sum [OF tpos, of "map snd sc" 0] by simp
  have "sum_list (map (shannon_term tot) (map snd sc))
          = (\<Sum>k\<in>species_key ` set ?rows. shannon_term tot (group_total ?rows k))"
    using cl by (rule counts_sum_over_keys)
  also have "\<dots> = (\<Sum>k\<in>species_key ` set ?rows. proportion ?rows k * ln (proportion ?rows k))"
  proof (rule sum.cong)
    fix k assume "k \<in> species_key ` set ?rows"
    then have "0 < group_total ?rows k" using group_total_positive [OF assms(2)] by force
    then show "shannon_term tot (group_total ?rows k)
                 = proportion ?rows k * ln (proportion ?rows k)"
      by (simp add: shannon_term_def proportion_def tot)
  qed simp
  finally have formula: "shannon_diversity m =
             Finite (- (\<Sum>k\<in>species_key ` set ?rows. proportion ?rows k * ln (proportion ?rows k)))"
    using val sh by simp
  have "shannon_diversity m = Finite 0 \<longleftrightarrow> sum_list (map (shannon_term tot) (map snd sc)) = 0"
    using val sh by simp
  also have "\<dots> \<longleftrightarrow> length (map snd sc) = 1"
    using pos ne total by (rule shannon_sum_zero_iff)
  also have "\<dots> \<longleftrightarrow> card (species_key ` set ?rows) = 1"
    using observed_spec [OF cl] by simp
  finally have zero: "shannon_diversity m = Finite 0 \<longleftrightarrow> card (species_key ` set ?rows) = 1" .
  have stored: "succeeded (calculate_biodiversity_metrics d sid) \<longrightarrow>
                  metrics (fst (calculate_biodiversity_metrics d sid)) sid = Some m"
  proof
    assume "succeeded (calculate_biodiversity_metrics d sid)"
    then obtain m' where "metrics_of ?rows = Inr m'"
      and "metrics (fst (calculate_biodiversity_metrics d sid)) sid = Some m'"
      by (rule calculate_succeeded)
    then show "metrics (fst (calculate_biodiversity_metrics d sid)) sid = Some m"
      using m by simp
  qed
  have runs: "samples d sid \<noteq> None \<and> sum_list (map read_count ?rows) \<le> integer_max d \<longrightarrow>
                succeeded (calculate_biodiversity_metrics d sid)"
  proof
    assume a: "samples d sid \<noteq> None \<and> sum_list (map read_count ?rows) \<le> integer_max d"
    then obtain smp where smp: "samples d sid = Some smp" by auto
    from a have le: "sum_list (map read_count ?rows) \<le> integer_max d" by simp
    show "succeeded (calculate_biodiversity_metrics d sid)"
      using smp assms(1) assms(2) le by (rule calculate_total)
  qed
  show ?thesis by (intro exI [of _ m] conjI m formula zero stored runs)
qed

theorem shannon_zero_iff_single_group_witness:
  "\<exists>m. metrics (fst (calculate_biodiversity_metrics (example_db rows_single) 1)) 1 = Some m \<and>
       shannon_diversity m = Finite 0"
proof -
  have ne: "taxonomic_assignments (example_db rows_single) 1 \<noteq> []"
    by (simp add: example_defs task_defs)
  have pos: "\<forall>a\<in>set (taxonomic_assignments (example_db rows_single) 1). 1 \<le> read_count a"
    by (simp add: example_defs task_defs)
  have fits: "samples (example_db rows_single) 1 \<noteq> None \<and>
      sum_list (map read_count (taxonomic_assignments (example_db rows_single) 1))
        \<le> integer_max (example_db rows_single)"
    by (simp add: example_defs task_defs)
  have one: "card (species_key ` set (taxonomic_assignments (example_db rows_single) 1)) = 1"
    by (simp add: example_defs task_defs species_key_def)
  from shannon_zero_iff_single_group [OF ne pos] one fits show ?thesis by blast
qed

text \<open>
  C6: on a non-empty set of assignments that all have a read count of at least 1, the
  computed Simpson diversity is \<open>D = 1 - \<Sum> p * p\<close>, summed over the species keys with \<open>p\<close>
  the proportion of the key's reads, and it is at least 0 and strictly below 1. It is what
  a successful call stores, and the call succeeds when the sample exists and the total of
  the reads fits an integer column.
\<close>

theorem simpson_in_unit_interval:
  assumes "taxonomic_assignments d sid \<noteq> []"
    and "\<forall>a\<in>set (taxonomic_assignments d sid). 1 \<le> read_count a"
  shows "\<exists>m. metrics_of (taxonomic_assignments d sid) = Inr m \<and>
           simpson_diversity m =
             1 - (\<Sum>k\<in>species_key ` set (taxonomic_assignments d sid).
                     proportion (taxonomic_assignments d sid) k *
                     proportion (taxonomic_assignments d sid) k) \<and>
           0 \<le> simpson_diversity m \<and> simpson_diversity m < 1 \<and>
           (succeeded (calculate_biodiversity_metrics d sid) \<longrightarrow>
              metrics (fst (calculate_biodiversity_metrics d sid)) sid = Some m) \<and>
           (samples d sid \<noteq> None \<and>
            sum_list (map read_count (taxonomic_assignments d sid)) \<le> integer_max d \<longrightarrow>
              succeeded (calculate_biodiversity_metrics d sid))"
proof -
  let ?rows = "taxonomic_assignments d sid"
  have rows: "?rows \<noteq> []" using assms(1) .
  obtain m where m: "metrics_of ?rows = Inr m"
    using metrics_of_total [OF assms] by blast
  from m obtain sc tot sh ss where cl: "count_loop ?rows [] 0 = (sc, tot)"
    and "shannon_loop (map snd sc) tot (Finite 0) = Inr sh"
    and run: "simpson_loop (map snd sc) tot 0 = Inr ss"
    and "shannon_diversity m = sh"
    and si: "simpson_diversity m = 1 - ss"
    by (rule metrics_of_fields)
  have pos: "\<forall>c\<in>set (map snd sc). 1 \<le> c" using cl assms(2) by (rule group_counts_positive)
  have ne: "map snd sc \<noteq> []" using species_counts_nonempty [OF cl rows] by simp
  have total: "sum_list (map snd sc) = tot" using cl by (rule counts_sum_total)
  have tot: "tot = sum_list (map read_count ?rows)" using species_counts_spec(4) [OF cl] .
  have tpos: "0 < tot" using sum_list_ge_length [OF pos] ne total by (cases sc) auto
  have ss: "ss = sum_list (map (simpson_term tot) (map snd sc))"
    using run simpson_loop_sum [of tot "map snd sc" 0] tpos by simp
  have "sum_list (map (simpson_term tot) (map snd sc))
          = (\<Sum>k\<in>species_key ` set ?rows. simpson_term tot (group_total ?rows k))"
    using cl by (rule counts_sum_over_keys)
  also have "\<dots> = (\<Sum>k\<in>species_key ` set ?rows. proportion ?rows k * proportion ?rows k)"
  proof (rule sum.cong)
    fix k assume "k \<in> species_key ` set ?rows"
    then have "0 < group_total ?rows k" using group_total_positive [OF assms(2)] by force
    then show "simpson_term tot (group_total ?rows k) = proportion ?rows k * proportion ?rows k"
      by (simp add: simpson_term_def proportion_def tot)
  qed simp
  finally have formula: "simpson_diversity m =
      1 - (\<Sum>k\<in>species_key ` set ?rows. proportion ?rows k * proportion ?rows k)"
    using ss si by simp
  have "0 < ss" "ss \<le> 1"
    unfolding ss using pos ne total by (rule simpson_sum_bounds)+
  then have lo: "0 \<le> simpson_diversity m" and hi: "simpson_diversity m < 1" using si by simp_all
  have stored: "succeeded (calculate_biodiversity_metrics d sid) \<longrightarrow>
                  metrics (fst (calculate_biodiversity_metrics d sid)) sid = Some m"
  proof
    assume "succeeded (calculate_biodiversity_metrics d sid)"
    then obtain m' where "metrics_of ?rows = Inr m'"
      and "metrics (fst (calculate_biodiversity_metrics d sid)) sid = Some m'"
      by (rule calculate_succeeded)
    then show "metrics (fst (calculate_biodiversity_metrics d sid)) sid = Some m"
      using m by simp
  qed
  have runs: "samples d sid \<noteq> None \<and> sum_list (map read_count ?rows) \<le> integer_max d \<longrightarrow>
                succeeded (calculate_biodiversity_metrics d sid)"
  proof
    assume a: "samples d sid \<noteq> None \<and> sum_list (map read_count ?rows) \<le> integer_max d"
    then obtain smp where smp: "samples d sid = Some smp" by auto
    from a have le: "sum_list (map read_count ?rows) \<le> integer_max d" by simp
    show "succeeded (calculate_biodiversity_metrics d sid)"
      using smp assms(1) assms(2) le by (rule calculate_total)
  qed
  show ?thesis by (intro exI [of _ m] conjI m formula lo hi stored runs)
qed

theorem simpson_in_unit_interval_witness:
  "\<exists>m. metrics (fst (calculate_biodiversity_metrics (example_db rows_abc) 1)) 1 = Some m \<and>
       0 \<le> simpson_diversity m \<and> simpson_diversity m < 1"
proof -
  have ne: "taxonomic_assignments (example_db rows_abc) 1 \<noteq> []"
    by (simp add: example_defs task_defs)
  have pos: "\<forall>a\<in>set (taxonomic_assignments (example_db rows_abc) 1). 1 \<le> read_count a"
    by (simp add: example_defs task_defs)
  have fits: "samples (example_db rows_abc) 1 \<noteq> None \<and>
      sum_list (map read_count (taxonomic_assignments (example_db rows_abc) 1))
        \<le> integer_max (example_db rows_abc)"
    by (simp add: example_defs task_defs)
  from simpson_in_unit_interval [OF ne pos] fits show ?thesis by blast
qed

lemma group_reads_sum:
  "group_reads names rows = sum_list (map read_count (filter (phylum_in names) rows))"
  by (simp add: group_reads_def aggregate_sum_def)

lemma phylum_groups_disjoint:
  "\<not> (phylum_in protist_phylums a \<and> phylum_in metazoan_phylums a)"
  "\<not> (phylum_in protist_phylums a \<and> phylum_in cnidarian_phylums a)"
  "\<not> (phylum_in protist_phylums a \<and> phylum_in fungi_phylums a)"
  "\<not> (phylum_in metazoan_phylums a \<and> phylum_in cnidarian_phylums a)"
  "\<not> (phylum_in metazoan_phylums a \<and> phylum_in fungi_phylums a)"
  "\<not> (phylum_in cnidarian_phylums a \<and> phylum_in fungi_phylums a)"
  by (auto simp: phylum_in_def protist_phylums_def metazoan_phylums_def cnidarian_phylums_def
        fungi_phylums_def split: option.splits)

lemma group_reads_nonneg:
  "\<forall>a\<in>set rows. 0 \<le> read_count a \<Longrightarrow> 0 \<le> group_reads names rows"
  unfolding group_reads_sum by (induction rows) auto

lemma group_reads_sum_le:
  assumes "\<forall>a\<in>set rows. 0 \<le> read_count a"
  shows "group_reads protist_phylums rows + group_reads metazoan_phylums rows +
         group_reads cnidarian_phylums rows + group_reads fungi_phylums rows
           \<le> sum_list (map read_count rows)"
  using assms
proof (induction rows)
  case Nil
  then show ?case by (simp add: group_reads_sum)
next
  case (Cons a rows)
  have ih: "group_reads protist_phylums rows + group_reads metazoan_phylums rows +
         group_reads cnidarian_phylums rows + group_reads fungi_phylums rows
           \<le> sum_list (map read_count rows)"
    using Cons by simp
  have a: "0 \<le> read_count a" using Cons.prems by simp
  show ?case
    using ih a phylum_groups_disjoint [of a] by (auto simp: group_reads_sum)
qed

lemma percentage_zero: "percentage 0 tot = 0"
  by (simp add: percentage_def double_zero)

lemma percentage_bounds:
  assumes "0 \<le> g" "g \<le> tot" "0 < tot"
  shows "0 \<le> percentage g tot" "percentage g tot \<le> 100"
proof -
  let ?q = "real_of_int g / real_of_int tot"
  have q: "0 \<le> ?q" "?q \<le> 1" using assms by simp_all
  have y0: "0 \<le> double ?q" using q(1) by (rule double_nonneg)
  have "double ?q \<le> double 1" using q by (rule double_mono)
  then have y1: "double ?q \<le> 1" by (simp only: double_one)
  have z0: "0 \<le> double ?q * 100" using y0 by simp
  have z1: "double ?q * 100 \<le> 100" using y1 by simp
  have "0 \<le> double (double ?q * 100)" using z0 by (rule double_nonneg)
  then show "0 \<le> percentage g tot" using assms(3) by (simp add: percentage_def)
  have "double (double ?q * 100) \<le> double 100" using z0 z1 by (rule double_mono)
  then show "percentage g tot \<le> 100" using assms(3) by (simp add: percentage_def double_hundred)
qed

text \<open>Two roundings: a percentage exceeds the exact one by a factor of at most \<open>(1 + 2^-53)^2\<close>.\<close>

lemma percentage_rounding:
  assumes "0 \<le> g" "0 < tot"
  shows "percentage g tot \<le> real_of_int g / real_of_int tot * 100 * (1 + 1 / 2 ^ 53) ^ 2"
proof (cases "g = 0")
  case True
  then show ?thesis by (simp add: percentage_zero)
next
  case False
  let ?q = "real_of_int g / real_of_int tot"
  let ?r = "1 + 1 / 2 ^ 53 :: real"
  have q: "0 < ?q" using assms False by simp
  have y: "double ?q \<le> ?q * ?r" using q by (rule double_error)
  have ypos: "0 < double ?q * 100" using double_pos [OF q] by simp
  have "double (double ?q * 100) \<le> double ?q * 100 * ?r" using ypos by (rule double_error)
  also have "\<dots> \<le> (?q * ?r) * 100 * ?r"
    using y by (intro mult_right_mono) simp_all
  also have "\<dots> = ?q * 100 * ?r ^ 2" by (simp add: power2_eq_square)
  finally show ?thesis using assms(2) by (simp add: percentage_def)
qed

text \<open>The four percentages of one, seven, none and one read out of nine.\<close>

lemma percentage_one_ninth: "percentage 1 9 = 3127499741229511 / 2 ^ 48"
proof -
  have a: "double (1 / 9) = 2001599834386887 / 2 ^ 54"
    by (subst double_scaled [of _ 56]) (simp_all add: round_half_even_def)
  have b: "double (2001599834386887 / 2 ^ 54 * 100) = 3127499741229511 / 2 ^ 48"
    by (subst double_scaled [of _ 49]) (simp_all add: round_half_even_def)
  have "percentage 1 9 = double (double (1 / 9) * 100)" by (simp add: percentage_def)
  also have "\<dots> = double (2001599834386887 / 2 ^ 54 * 100)" by (simp only: a)
  finally show ?thesis by (simp only: b)
qed

lemma percentage_seven_ninths: "percentage 7 9 = 5473124547151645 / 2 ^ 46"
proof -
  have a: "double (7 / 9) = 7005599420354105 / 2 ^ 53"
    by (subst double_scaled [of _ 53]) (simp_all add: round_half_even_def)
  have b: "double (7005599420354105 / 2 ^ 53 * 100) = 5473124547151645 / 2 ^ 46"
    by (subst double_scaled [of _ 46]) (simp_all add: round_half_even_def)
  have "percentage 7 9 = double (double (7 / 9) * 100)" by (simp add: percentage_def)
  also have "\<dots> = double (7005599420354105 / 2 ^ 53 * 100)" by (simp only: a)
  finally show ?thesis by (simp only: b)
qed

text \<open>
  C10, as stated, bounds the sum of the four stored percentages by 100. The percentages are
  doubles, each rounded twice: with one protist read, seven metazoan reads and one fungal read
  out of nine, the stored values are 11.11111111111111, 77.77777777777779, 0.0 and
  11.11111111111111, and their sum is \<open>100 + 2^-47\<close>.
\<close>

theorem group_percentages_counterexample:
  "map_option percentage_sum
     (metrics (fst (calculate_biodiversity_metrics (example_db rows_ninths) 1)) 1)
   = Some (100 + 1 / 2 ^ 47)"
  by (simp add: example_defs task_defs metrics_of_def species_key_def np_log_def chao1_def
        singletons_def doubletons_def group_reads_def aggregate_sum_def phylum_in_def
        protist_phylums_def metazoan_phylums_def cnidarian_phylums_def fungi_phylums_def
        percentage_sum_def percentage_zero percentage_one_ninth percentage_seven_ninths)

text \<open>
  C10 (amended): on a non-empty set of assignments that all have a read count of at least
  1, each of the four computed group percentages lies between 0 and 100. The four phylum
  lists are pairwise disjoint, so the four read totals add up to at most
  \<open>total_sequences\<close> and the exact percentages to at most 100; the computed doubles add up
  to at most \<open>100 * (1 + 2^-53)^2\<close>. They are what a successful call stores, and the call
  succeeds when the sample exists and the total of the reads fits an integer column.
\<close>

theorem group_percentages_bounded:
  assumes "taxonomic_assignments d sid \<noteq> []"
    and "\<forall>a\<in>set (taxonomic_assignments d sid). 1 \<le> read_count a"
  shows "\<exists>m. metrics_of (taxonomic_assignments d sid) = Inr m \<and>
           total_sequences m = sum_list (map read_count (taxonomic_assignments d sid)) \<and>
           protist_percentage m
             = percentage (group_reads protist_phylums (taxonomic_assignments d sid))
                 (total_sequences m) \<and>
           metazoan_percentage m
             = percentage (group_reads metazoan_phylums (taxonomic_assignments d sid))
                 (total_sequences m) \<and>
           cnidarian_percentage m
             = percentage (group_reads cnidarian_phylums (taxonomic_assignments d sid))
                 (total_sequences m) \<and>
           fungi_percentage m
             = percentage (group_reads fungi_phylums (taxonomic_assignments d sid))
                 (total_sequences m) \<and>
           0 \<le> protist_percentage m \<and> protist_percentage m \<le> 100 \<and>
           0 \<le> metazoan_percentage m \<and> metazoan_percentage m \<le> 100 \<and>
           0 \<le> cnidarian_percentage m \<and> cnidarian_percentage m \<le> 100 \<and>
           0 \<le> fungi_percentage m \<and> fungi_percentage m \<le> 100 \<and>
           group_reads protist_phylums (taxonomic_assignments d sid) +
             group_reads metazoan_phylums (taxonomic_assignments d sid) +
             group_reads cnidarian_phylums (taxonomic_assignments d sid) +
             group_reads fungi_phylums (taxonomic_assignments d sid) \<le> total_sequences m \<and>
           percentage_sum m \<le> 100 * (1 + 1 / 2 ^ 53) ^ 2 \<and>
           (succeeded (calculate_biodiversity_metrics d sid) \<longrightarrow>
              metrics (fst (calculate_biodiversity_metrics d sid)) sid = Some m) \<and>
           (samples d sid \<noteq> None \<and>
            sum_list (map read_count (taxonomic_assignments d sid)) \<le> integer_max d \<longrightarrow>
              succeeded (calculate_biodiversity_metrics d sid))"
proof -
  let ?rows = "taxonomic_assignments d sid"
  let ?P = "group_reads protist_phylums ?rows"
  let ?M = "group_reads metazoan_phylums ?rows"
  let ?C = "group_reads cnidarian_phylums ?rows"
  let ?F = "group_reads fungi_phylums ?rows"
  let ?r = "(1 + 1 / 2 ^ 53) ^ 2 :: real"
  have rows: "?rows \<noteq> []" using assms(1) .
  obtain m where m: "metrics_of ?rows = Inr m"
    using metrics_of_total [OF assms] by blast
  from m obtain sc tot where cl: "count_loop ?rows [] 0 = (sc, tot)"
    and ts: "total_sequences m = tot"
    and p: "protist_percentage m = percentage ?P tot"
    and z: "metazoan_percentage m = percentage ?M tot"
    and c: "cnidarian_percentage m = percentage ?C tot"
    and f: "fungi_percentage m = percentage ?F tot"
    by (rule metrics_of_fields)
  have tot: "tot = sum_list (map read_count ?rows)" using species_counts_spec(4) [OF cl] .
  have "\<forall>x\<in>set (map read_count ?rows). 1 \<le> x" using assms(2) by simp
  then have "int (length (map read_count ?rows)) \<le> sum_list (map read_count ?rows)"
    by (rule sum_list_ge_length)
  then have tpos: "0 < tot" using rows tot by (cases ?rows) auto
  have nn: "\<forall>a\<in>set ?rows. 0 \<le> read_count a" using assms(2) by force
  have P0: "0 \<le> ?P" and M0: "0 \<le> ?M" and C0: "0 \<le> ?C" and F0: "0 \<le> ?F"
    using nn by (rule group_reads_nonneg)+
  have sum: "?P + ?M + ?C + ?F \<le> tot" unfolding tot using nn by (rule group_reads_sum_le)
  have Pt: "?P \<le> tot" and Mt: "?M \<le> tot" and Ct: "?C \<le> tot" and Ft: "?F \<le> tot"
    using P0 M0 C0 F0 sum by linarith+
  have rpos: "0 \<le> ?r" by simp
  have "percentage ?P tot + percentage ?M tot + percentage ?C tot + percentage ?F tot
          \<le> real_of_int ?P / real_of_int tot * 100 * ?r + real_of_int ?M / real_of_int tot * 100 * ?r
            + real_of_int ?C / real_of_int tot * 100 * ?r + real_of_int ?F / real_of_int tot * 100 * ?r"
    using percentage_rounding [OF P0 tpos] percentage_rounding [OF M0 tpos]
      percentage_rounding [OF C0 tpos] percentage_rounding [OF F0 tpos] by linarith
  also have "\<dots> = real_of_int (?P + ?M + ?C + ?F) / real_of_int tot * 100 * ?r"
    by (simp add: add_divide_distrib distrib_right)
  also have "\<dots> \<le> 1 * 100 * ?r"
  proof -
    have "real_of_int (?P + ?M + ?C + ?F) / real_of_int tot \<le> 1"
      using sum tpos by (simp add: divide_le_eq)
    then show ?thesis using rpos by (intro mult_right_mono) simp_all
  qed
  finally have total: "percentage_sum m \<le> 100 * ?r"
    using p z c f by (simp add: percentage_sum_def)
  have reads: "?P + ?M + ?C + ?F \<le> total_sequences m" using sum ts by simp
  have stored: "succeeded (calculate_biodiversity_metrics d sid) \<longrightarrow>
                  metrics (fst (calculate_biodiversity_metrics d sid)) sid = Some m"
  proof
    assume "succeeded (calculate_biodiversity_metrics d sid)"
    then obtain m' where "metrics_of ?rows = Inr m'"
      and "metrics (fst (calculate_biodiversity_metrics d sid)) sid = Some m'"
      by (rule calculate_succeeded)
    then show "metrics (fst (calculate_biodiversity_metrics d sid)) sid = Some m"
      using m by simp
  qed
  have runs: "samples d sid \<noteq> None \<and> sum_list (map read_count ?rows) \<le> integer_max d \<longrightarrow>
                succeeded (calculate_biodiversity_metrics d sid)"
  proof
    assume a: "samples d sid \<noteq> None \<and> sum_list (map read_count ?rows) \<le> integer_max d"
    then obtain smp where smp: "samples d sid = Some smp" by auto
    from a have le: "sum_list (map read_count ?rows) \<le> integer_max d" by simp
    show "succeeded (calculate_biodiversity_metrics d sid)"
      using smp assms(1) assms(2) le by (rule calculate_total)
  qed
  show ?thesis
    using percentage_bounds [OF P0 Pt tpos] percentage_bounds [OF M0 Mt tpos]
      percentage_bounds [OF C0 Ct tpos] percentage_bounds [OF F0 Ft tpos]
    by (intro exI [of _ m] conjI m reads total stored runs) (simp_all add: p z c f ts tot)
qed

theorem group_percentages_bounded_witness:
  "\<exists>m. metrics (fst (calculate_biodiversity_metrics (example_db rows_ninths) 1)) 1 = Some m \<and>
       0 \<le> metazoan_percentage m \<and> metazoan_percentage m \<le> 100 \<and>
       percentage_sum m \<le> 100 * (1 + 1 / 2 ^ 53) ^ 2"
proof -
  have ne: "taxonomic_assignments (example_db rows_ninths) 1 \<noteq> []"
    by (simp add: example_defs task_defs)
  have pos: "\<forall>a\<in>set (taxonomic_assignments (example_db rows_ninths) 1). 1 \<le> read_count a"
    by (simp add: example_defs task_defs)
  have fits: "samples (example_db rows_ninths) 1 \<noteq> None \<and>
      sum_list (map read_count (taxonomic_assignments (example_db rows_ninths) 1))
        \<le> integer_max (example_db rows_ninths)"
    by (simp add: example_defs task_defs)
  from group_percentages_bounded [OF ne pos] fits show ?thesis by blast
qed

section \<open>The simulated classification\<close>

text \<open>Sequence ids of different iterations differ: the digits read back as the number.\<close>

lemma digit_value_digit: "n < 10 \<Longrightarrow> digit_value (digit n) = n"
proof -
  assume "n < 10"
  then have "n \<in> {0, 1, 2, 3, 4, 5, 6, 7, 8, 9}" by auto
  then show ?thesis by (auto simp: digit_value_def digit_def)
qed

lemma decimal_value_snoc: "decimal_value (s @ [c]) = 10 * decimal_value s + digit_value c"
  by (simp add: decimal_value_def)

declare decimal.simps [simp del]

lemma decimal_value_decimal: "decimal_value (decimal n) = n"
proof (induction n rule: decimal.induct)
  case (1 n)
  show ?case
  proof (cases "n < 10")
    case True
    then show ?thesis
      by (subst decimal.simps) (simp add: decimal_value_def digit_value_digit)
  next
    case False
    have "decimal_value (decimal n) = 10 * decimal_value (decimal (n div 10)) + digit_value (digit (n mod 10))"
      using False by (subst decimal.simps) (simp add: decimal_value_snoc)
    also have "\<dots> = 10 * (n div 10) + n mod 10"
      using "1.IH" [OF False] by (simp add: digit_value_digit)
    finally show ?thesis by simp
  qed
qed

lemma decimal_value_zeros: "decimal_value (replicate k (CHR ''0'') @ s) = decimal_value s"
proof -
  have "foldl (\<lambda>acc c. 10 * acc + digit_value c) 0 (replicate k (CHR ''0'')) = 0"
    by (induction k) (simp_all add: digit_value_def)
  then show ?thesis by (simp add: decimal_value_def)
qed

lemma format_04d_value: "decimal_value (format_04d i) = i"
  by (simp add: format_04d_def decimal_value_zeros decimal_value_decimal)

lemma seq_id_inject: "seq_id smp i = seq_id smp j \<Longrightarrow> i = j"
proof -
  assume "seq_id smp i = seq_id smp j"
  then have "format_04d i = format_04d j" by (simp add: seq_id_def)
  then have "decimal_value (format_04d i) = decimal_value (format_04d j)" by simp
  then show "i = j" by (simp only: format_04d_value)
qed

lemma new_assignment_key:
  "sample (new_assignment sid smp i dr) = sid"
  "sequence_id (new_assignment sid smp i dr) = seq_id smp i"
  by (simp_all add: new_assignment_def split: prod.splits)

lemma iterations_range: "50 \<le> iterations rnd" "iterations rnd \<le> 200"
proof -
  have "count_draw rnd mod 151 < 151" by simp
  then show "50 \<le> iterations rnd" "iterations rnd \<le> 200"
    by (simp_all add: iterations_def randint_def)
qed

lemma create_loop_fresh:
  assumes "distinct js"
    and "\<forall>a\<in>set table. sample a = sid \<longrightarrow> (\<forall>j\<in>set js. sequence_id a \<noteq> seq_id smp j)"
  shows "create_loop sid smp draws js table c =
           (table @ map (\<lambda>i. new_assignment sid smp i (draws i)) js, Inr (c + length js))"
  using assms
proof (induction js arbitrary: table c)
  case Nil
  then show ?case by simp
next
  case (Cons i js)
  let ?a = "new_assignment sid smp i (draws i)"
  have free: "\<not> (\<exists>b\<in>set table. sample b = sample ?a \<and> sequence_id b = sequence_id ?a)"
    using Cons.prems(2) by (auto simp: new_assignment_key)
  then have step: "objects_create table ?a = Inr (table @ [?a])"
    by (simp add: objects_create_def)
  have d: "distinct js" and notin: "i \<notin> set js" using Cons.prems(1) by simp_all
  have inv: "\<forall>a\<in>set (table @ [?a]). sample a = sid \<longrightarrow>
               (\<forall>j\<in>set js. sequence_id a \<noteq> seq_id smp j)"
  proof (intro ballI impI)
    fix a j assume a: "a \<in> set (table @ [?a])" and s: "sample a = sid" and j: "j \<in> set js"
    show "sequence_id a \<noteq> seq_id smp j"
    proof (cases "a \<in> set table")
      case True
      then show ?thesis using Cons.prems(2) s j by simp
    next
      case False
      then have "a = ?a" using a by simp
      then have "sequence_id a = seq_id smp i" by (simp add: new_assignment_key)
      moreover have "i \<noteq> j" using notin j by auto
      ultimately show ?thesis using seq_id_inject by metis
    qed
  qed
  show ?case using Cons.IH [OF d inv] step by simp
qed

lemma first_run:
  assumes "samples d sid = Some smp" and "\<forall>a\<in>set (assignments d). sample a \<noteq> sid"
  shows "process_sequence_file d sid file_path rnd =
           (d\<lparr>assignments := assignments d @ created_rows sid smp rnd,
               queue := queue d @ [Calculate_biodiversity_metrics sid]\<rparr>,
            Returned (Process_success (iterations rnd) file_path))"
proof -
  have "create_loop sid smp (iteration rnd) [0 ..< iterations rnd] (assignments d) 0 =
          (assignments d @ map (\<lambda>i. new_assignment sid smp i (iteration rnd i)) [0 ..< iterations rnd],
           Inr (0 + length [0 ..< iterations rnd]))"
    by (rule create_loop_fresh) (use assms(2) in auto)
  then show ?thesis using assms(1)
    by (simp add: process_sequence_file_def process_body_def iterations_def created_rows_def)
qed

lemma rerun_refused:
  assumes "samples d sid = Some smp"
    and "\<exists>b\<in>set (assignments d). sample b = sid \<and> sequence_id b = seq_id smp 0"
  shows "process_sequence_file d sid file_path rnd = (d, Returned (Error_exception IntegrityError))"
proof -
  have "0 < iterations rnd" using iterations_range(1) [of rnd] by simp
  then have upt: "[0 ..< iterations rnd] = 0 # [1 ..< iterations rnd]"
    by (simp add: upt_conv_Cons)
  have "objects_create (assignments d) (new_assignment sid smp 0 (iteration rnd 0)) = Inl IntegrityError"
    using assms(2) by (simp add: objects_create_def new_assignment_key)
  then have "create_loop sid smp (iteration rnd) [0 ..< iterations rnd] (assignments d) 0 =
               (assignments d, Inl IntegrityError)"
    by (simp add: upt)
  then show ?thesis using assms(1)
    by (simp add: process_sequence_file_def process_body_def iterations_def)
qed

lemma created_rows_first:
  "\<exists>b\<in>set (created_rows sid smp rnd). sample b = sid \<and> sequence_id b = seq_id smp 0"
proof -
  have "0 < iterations rnd" using iterations_range(1) [of rnd] by simp
  then have "new_assignment sid smp 0 (iteration rnd 0) \<in> set (created_rows sid smp rnd)"
    by (auto simp: created_rows_def)
  then show ?thesis using new_assignment_key by blast
qed

lemma created_rows_nth:
  "i < iterations rnd \<Longrightarrow>
     created_rows sid smp rnd ! i = new_assignment sid smp i (iteration rnd i)"
  by (simp add: created_rows_def)

lemma created_rows_length: "length (created_rows sid smp rnd) = iterations rnd"
  by (simp add: created_rows_def)

lemma create_loop_appends:
  "create_loop sid smp draws js table c = (table', r) \<Longrightarrow>
     \<exists>ks. set ks \<subseteq> set js \<and> table' = table @ map (\<lambda>i. new_assignment sid smp i (draws i)) ks"
proof (induction js arbitrary: table c)
  case Nil
  then show ?case by simp
next
  case (Cons i js)
  let ?a = "new_assignment sid smp i (draws i)"
  show ?case
  proof (cases "objects_create table ?a")
    case (Inl e)
    then have "table' = table" using Cons.prems by simp
    then show ?thesis by (intro exI [of _ "[]"]) simp
  next
    case (Inr t)
    then have t: "t = table @ [?a]" by (simp add: objects_create_def split: if_splits)
    have "create_loop sid smp draws js t (c + 1) = (table', r)" using Cons.prems Inr by simp
    from Cons.IH [OF this] obtain ks where ks: "set ks \<subseteq> set js"
      and t': "table' = t @ map (\<lambda>i. new_assignment sid smp i (draws i)) ks" by blast
    show ?thesis using ks t' t by (intro exI [of _ "i # ks"]) auto
  qed
qed

lemma create_loop_success:
  "create_loop sid smp draws js table c = (table', Inr n) \<Longrightarrow>
     table' = table @ map (\<lambda>i. new_assignment sid smp i (draws i)) js \<and> n = c + length js"
proof (induction js arbitrary: table c)
  case Nil
  then show ?case by simp
next
  case (Cons i js)
  let ?a = "new_assignment sid smp i (draws i)"
  show ?case
  proof (cases "objects_create table ?a")
    case (Inl e)
    then show ?thesis using Cons.prems by simp
  next
    case (Inr t)
    then have t: "t = table @ [?a]" by (simp add: objects_create_def split: if_splits)
    have "create_loop sid smp draws js t (c + 1) = (table', Inr n)" using Cons.prems Inr by simp
    from Cons.IH [OF this] show ?thesis using t by simp
  qed
qed

lemma objects_create_unique:
  "unique_together table \<Longrightarrow> objects_create table a = Inr t \<Longrightarrow> unique_together t"
proof -
  assume u: "unique_together table" and c: "objects_create table a = Inr t"
  from c have free: "\<not> (\<exists>b\<in>set table. sample b = sample a \<and> sequence_id b = sequence_id a)"
    and t: "t = table @ [a]"
    by (simp_all add: objects_create_def split: if_splits)
  from free have "(sample a, sequence_id a) \<notin> set (map (\<lambda>a. (sample a, sequence_id a)) table)"
    by force
  then show "unique_together t" using u t by (simp add: unique_together_def)
qed

lemma create_loop_unique:
  "unique_together table \<Longrightarrow> create_loop sid smp draws js table c = (table', r) \<Longrightarrow>
     unique_together table'"
proof (induction js arbitrary: table c)
  case Nil
  then show ?case by simp
next
  case (Cons i js)
  let ?a = "new_assignment sid smp i (draws i)"
  show ?case
  proof (cases "objects_create table ?a")
    case (Inl e)
    then show ?thesis using Cons.prems by simp
  next
    case (Inr t)
    have u: "unique_together t" using Cons.prems(1) Inr by (rule objects_create_unique)
    have "create_loop sid smp draws js t (c + 1) = (table', r)" using Cons.prems Inr by simp
    from Cons.IH [OF u this] show ?thesis .
  qed
qed

lemma process_body_cases:
  obtains (missing) "samples d sid = None"
      and "process_sequence_file d sid file_path rnd = (d, Returned Error_sample_not_found)"
  | (failed) smp table e where "samples d sid = Some smp"
      and "create_loop sid smp (iteration rnd) [0 ..< iterations rnd] (assignments d) 0 = (table, Inl e)"
      and "process_sequence_file d sid file_path rnd
         = (d\<lparr>assignments := table\<rparr>, snd (handle_exceptions (d, Raised e)))"
  | (completed) smp table n where "samples d sid = Some smp"
      and "create_loop sid smp (iteration rnd) [0 ..< iterations rnd] (assignments d) 0 = (table, Inr n)"
      and "process_sequence_file d sid file_path rnd
         = (d\<lparr>assignments := table, queue := queue d @ [Calculate_biodiversity_metrics sid]\<rparr>,
            Returned (Process_success n file_path))"
proof (cases "samples d sid")
  case None
  then show ?thesis
    by (intro missing) (simp_all add: process_sequence_file_def process_body_def)
next
  case (Some smp)
  obtain table r where cl:
    "create_loop sid smp (iteration rnd) [0 ..< iterations rnd] (assignments d) 0 = (table, r)"
    by (cases "create_loop sid smp (iteration rnd) [0 ..< iterations rnd] (assignments d) 0")
  show ?thesis
  proof (cases r)
    case (Inl e)
    show ?thesis
      by (rule failed [OF Some cl [unfolded Inl]])
         (cases e; use Some cl Inl in \<open>simp add: process_sequence_file_def process_body_def iterations_def\<close>)
  next
    case (Inr n)
    show ?thesis
      by (rule completed [OF Some cl [unfolded Inr]])
         (use Some cl Inr in \<open>simp add: process_sequence_file_def process_body_def iterations_def\<close>)
  qed
qed

lemma created_origin:
  assumes "a \<in> set (created_by d (fst (process_sequence_file d sid file_path rnd)))"
  shows "\<exists>smp i. samples d sid = Some smp \<and> i < iterations rnd \<and>
           a = new_assignment sid smp i (iteration rnd i)"
proof (cases rule: process_body_cases [of d sid file_path rnd])
  case missing
  then show ?thesis using assms by (simp add: created_by_def)
next
  case (failed smp table e)
  from create_loop_appends [OF failed(2)] obtain ks where ks: "set ks \<subseteq> set [0 ..< iterations rnd]"
    and t: "table = assignments d @ map (\<lambda>i. new_assignment sid smp i (iteration rnd i)) ks"
    by blast
  have "a \<in> set (map (\<lambda>i. new_assignment sid smp i (iteration rnd i)) ks)"
    using assms failed(3) t by (simp add: created_by_def)
  then obtain i where "i \<in> set ks" and a: "a = new_assignment sid smp i (iteration rnd i)"
    by auto
  then have "i < iterations rnd" using ks by auto
  then show ?thesis using a failed(1) by blast
next
  case (completed smp table n)
  from create_loop_appends [OF completed(2)] obtain ks where ks: "set ks \<subseteq> set [0 ..< iterations rnd]"
    and t: "table = assignments d @ map (\<lambda>i. new_assignment sid smp i (iteration rnd i)) ks"
    by blast
  have "a \<in> set (map (\<lambda>i. new_assignment sid smp i (iteration rnd i)) ks)"
    using assms completed(3) t by (simp add: created_by_def)
  then obtain i where "i \<in> set ks" and a: "a = new_assignment sid smp i (iteration rnd i)"
    by auto
  then have "i < iterations rnd" using ks by auto
  then show ?thesis using a completed(1) by blast
qed

lemma process_succeeded:
  assumes "succeeded (process_sequence_file d sid file_path rnd)"
  obtains smp where "samples d sid = Some smp"
    and "process_sequence_file d sid file_path rnd =
           (d\<lparr>assignments := assignments d @ created_rows sid smp rnd,
               queue := queue d @ [Calculate_biodiversity_metrics sid]\<rparr>,
            Returned (Process_success (iterations rnd) file_path))"
proof (cases rule: process_body_cases [of d sid file_path rnd])
  case missing
  then show ?thesis using assms by simp
next
  case (failed smp table e)
  then show ?thesis using assms by (cases e) simp_all
next
  case (completed smp table n)
  from create_loop_success [OF completed(2)]
  have "table = assignments d @ created_rows sid smp rnd" and "n = iterations rnd"
    by (simp_all add: created_rows_def)
  then show ?thesis using completed(1,3) that by simp
qed

lemma process_unique:
  assumes "unique_together (assignments d)"
  shows "unique_together (assignments (fst (process_sequence_file d sid file_path rnd)))"
proof (cases rule: process_body_cases [of d sid file_path rnd])
  case missing
  then show ?thesis using assms by simp
next
  case (failed smp table e)
  then show ?thesis using create_loop_unique [OF assms failed(2)] by simp
next
  case (completed smp table n)
  then show ?thesis using create_loop_unique [OF assms completed(2)] by simp
qed

lemma rerun_after_success:
  assumes "succeeded (process_sequence_file d sid file_path rnd)"
  shows "process_sequence_file (fst (process_sequence_file d sid file_path rnd)) sid file_path' rnd' =
           (fst (process_sequence_file d sid file_path rnd), Returned (Error_exception IntegrityError))"
proof -
  from assms obtain smp where smp: "samples d sid = Some smp"
    and run: "process_sequence_file d sid file_path rnd =
           (d\<lparr>assignments := assignments d @ created_rows sid smp rnd,
               queue := queue d @ [Calculate_biodiversity_metrics sid]\<rparr>,
            Returned (Process_success (iterations rnd) file_path))"
    by (rule process_succeeded)
  let ?d1 = "d\<lparr>assignments := assignments d @ created_rows sid smp rnd,
               queue := queue d @ [Calculate_biodiversity_metrics sid]\<rparr>"
  have d1: "fst (process_sequence_file d sid file_path rnd) = ?d1" using run by simp
  have s: "samples ?d1 sid = Some smp" using smp by simp
  have e: "\<exists>b\<in>set (assignments ?d1). sample b = sid \<and> sequence_id b = seq_id smp 0"
    using created_rows_first [of sid smp rnd] by auto
  show ?thesis unfolding d1 using s e by (rule rerun_refused)
qed

lemma example_run:
  "process_sequence_file (example_db []) 1 file_path rnd =
     ((example_db [])\<lparr>assignments := created_rows 1 \<lparr> sample_id = ''S1'' \<rparr> rnd,
                      queue := [Calculate_biodiversity_metrics 1]\<rparr>,
      Returned (Process_success (iterations rnd) file_path))"
proof -
  have s: "samples (example_db []) 1 = Some \<lparr> sample_id = ''S1'' \<rparr>"
    by (simp add: example_db_def)
  have f: "\<forall>a\<in>set (assignments (example_db [])). sample a \<noteq> 1"
    by (simp add: example_db_def)
  show ?thesis using first_run [OF s f, of file_path rnd] by (simp add: example_db_def)
qed

lemma example_iterations: "iterations example_draws = 50"
  by (simp add: iterations_def randint_def example_draws_def)

lemma example_row_nth:
  "i < iterations rnd \<Longrightarrow>
     assignments (fst (process_sequence_file (example_db []) 1 file_path rnd)) ! i
       = new_assignment 1 \<lparr> sample_id = ''S1'' \<rparr> i (iteration rnd i)"
  by (subst example_run) (simp add: created_rows_nth)

section \<open>The drawn score and the thresholds\<close>

text \<open>
  \<open>random.uniform(0.7, 0.98)\<close>: the difference of the two doubles is a double, so the score
  stays between them; both ends are reached, the upper one at the largest draw below 1.
\<close>

lemma score_width:
  "double (2206763817411543 / 2 ^ 51 - 3152519739159347 / 2 ^ 52) = 1261007895663739 / 2 ^ 52"
  by (subst double_scaled [of _ 54]) (simp_all add: round_half_even_def)

lemma uniform_bounds:
  assumes "unit_draw u"
  shows "double (7 / 10) \<le> uniform (double (7 / 10)) (double (98 / 100)) u"
    and "uniform (double (7 / 10)) (double (98 / 100)) u \<le> double (98 / 100)"
proof -
  let ?A = "3152519739159347 / 2 ^ 52 :: real"
  let ?B = "2206763817411543 / 2 ^ 51 :: real"
  let ?C = "1261007895663739 / 2 ^ 52 :: real"
  let ?w = "double (?C * u)"
  have u: "0 \<le> u" "u < 1" using assms by (simp_all add: unit_draw_def)
  have dA: "double ?A = ?A" by (subst double_scaled [of _ 53]) (simp_all add: round_half_even_def)
  have dB: "double ?B = ?B" by (subst double_scaled [of _ 53]) (simp_all add: round_half_even_def)
  have dC: "double ?C = ?C" by (subst double_scaled [of _ 54]) (simp_all add: round_half_even_def)
  have cu0: "0 \<le> ?C * u" using u(1) by simp
  have cu1: "?C * u \<le> ?C" using u by simp
  have w0: "0 \<le> ?w" using cu0 by (rule double_nonneg)
  have "?w \<le> double ?C" using cu0 cu1 by (rule double_mono)
  then have w1: "?w \<le> ?C" by (simp only: dC)
  have A0: "0 \<le> ?A" by simp
  have lo: "?A \<le> ?A + ?w" using w0 by simp
  have hi: "?A + ?w \<le> ?B" using w1 by simp
  have "double ?A \<le> double (?A + ?w)" using A0 lo by (rule double_mono)
  then have low: "?A \<le> double (?A + ?w)" by (simp only: dA)
  have "double (?A + ?w) \<le> double ?B" using order_trans [OF A0 lo] hi by (rule double_mono)
  then have high: "double (?A + ?w) \<le> ?B" by (simp only: dB)
  show "double (7 / 10) \<le> uniform (double (7 / 10)) (double (98 / 100)) u"
    unfolding uniform_def double_seven_tenths double_ninety_eight score_width by (rule low)
  show "uniform (double (7 / 10)) (double (98 / 100)) u \<le> double (98 / 100)"
    unfolding uniform_def double_seven_tenths double_ninety_eight score_width by (rule high)
qed

lemma uniform_half:
  "uniform (double (7 / 10)) (double (98 / 100)) (1 / 2) = 7566047373982433 / 2 ^ 53"
proof -
  have w: "double (1261007895663739 / 2 ^ 52 * (1 / 2)) = 1261007895663739 / 2 ^ 53"
    by (subst double_scaled [of _ 55]) (simp_all add: round_half_even_def)
  have s: "double (3152519739159347 / 2 ^ 52 + 1261007895663739 / 2 ^ 53)
             = 7566047373982433 / 2 ^ 53"
    by (subst double_scaled [of _ 53]) (simp_all add: round_half_even_def)
  show ?thesis
    unfolding uniform_def double_seven_tenths double_ninety_eight score_width w s by (rule refl)
qed

lemma uniform_reaches_upper:
  "uniform (double (7 / 10)) (double (98 / 100)) (1 - 1 / 2 ^ 53) = double (98 / 100)"
proof -
  have w: "double (1261007895663739 / 2 ^ 52 * (1 - 1 / 2 ^ 53)) = 5044031582654955 / 2 ^ 54"
    by (subst double_scaled [of _ 54]) (simp_all add: round_half_even_def)
  have s: "double (3152519739159347 / 2 ^ 52 + 5044031582654955 / 2 ^ 54)
             = 2206763817411543 / 2 ^ 51"
    by (subst double_scaled [of _ 53]) (simp_all add: round_half_even_def)
  show ?thesis
    unfolding uniform_def double_seven_tenths double_ninety_eight score_width w s by (rule refl)
qed

lemma uniform_reaches_lower:
  "uniform (double (7 / 10)) (double (98 / 100)) 0 = double (7 / 10)"
proof -
  have s: "double (3152519739159347 / 2 ^ 52 + 0) = 3152519739159347 / 2 ^ 52"
    by (subst double_scaled [of _ 53]) (simp_all add: round_half_even_def)
  show ?thesis
    unfolding uniform_def double_seven_tenths double_ninety_eight score_width
      mult_zero_right double_zero s by (rule refl)
qed

lemma three_tenths_below_half: "double (3 / 10) < 1 / 2"
  unfolding double_three_tenths by simp

lemma tenth_between: "1 / 20 < double (1 / 10)" "\<not> 1 / 2 < double (1 / 10)"
  unfolding double_tenth by simp_all

text \<open>
  No match whatever makes the specification's classifier return the level \<open>high\<close> with a
  score below 0.9.
\<close>

lemma claimed_classify_high:
  assumes "claimed_classify bm = (''high'', score)"
  shows "9 / 10 \<le> score"
proof (cases bm)
  case None
  then show ?thesis using assms by simp
next
  case (Some ic)
  obtain identity coverage where ic: "ic = (identity, coverage)" by (cases ic)
  from assms Some ic have l: "claimed_level score = ''high''" by auto
  show ?thesis
  proof (rule ccontr)
    assume "\<not> 9 / 10 \<le> score"
    then have "claimed_level score \<noteq> ''high''" by (simp add: claimed_level_def)
    then show False using l by simp
  qed
qed

section \<open>Claims about process_sequence_file\<close>

text \<open>
  C7, as the specification states it, computes the score from the identity and coverage of
  the best match, derives the level from the score by the thresholds 0.90, 0.70 and 0.50,
  and gives \<open>uncertain\<close> with score 0.0 when there is no best match. The assignments that
  \<open>process_sequence_file\<close> creates get a drawn level and a drawn score. With a level draw
  and a score draw of 0.5 the first assignment is \<open>high\<close> with the score 0.84, where the
  thresholds give \<open>medium\<close>: no best match, present or absent, makes the specification's
  classifier return this pair.
\<close>

theorem confidence_counterexample:
  "confidence_level (assignments (fst (process_sequence_file (example_db []) 1 ''/temp/S1.fastq'' example_draws)) ! 0) = ''high'' \<and>
   confidence_score (assignments (fst (process_sequence_file (example_db []) 1 ''/temp/S1.fastq'' example_draws)) ! 0) = 7566047373982433 / 2 ^ 53 \<and>
   claimed_level (7566047373982433 / 2 ^ 53) = ''medium'' \<and>
   (confidence_level (assignments (fst (process_sequence_file (example_db []) 1 ''/temp/S1.fastq'' example_draws)) ! 0), confidence_score (assignments (fst (process_sequence_file (example_db []) 1 ''/temp/S1.fastq'' example_draws)) ! 0)) \<notin> range claimed_classify"
proof -
  have r0: "assignments (fst (process_sequence_file (example_db []) 1 ''/temp/S1.fastq'' example_draws)) ! 0
          = new_assignment 1 \<lparr> sample_id = ''S1'' \<rparr> 0 (iteration example_draws 0)"
    by (rule example_row_nth) (simp add: example_iterations)
  have l: "level_draw (iteration example_draws 0) = 1 / 2"
    and u: "score_draw (iteration example_draws 0) = 1 / 2"
    by (simp_all add: example_draws_def)
  have level: "confidence_level (new_assignment 1 \<lparr> sample_id = ''S1'' \<rparr> 0 (iteration example_draws 0)) = ''high''"
    using three_tenths_below_half by (simp add: new_assignment_def l split: prod.splits)
  have "confidence_score (new_assignment 1 \<lparr> sample_id = ''S1'' \<rparr> 0 (iteration example_draws 0))
          = uniform (double (7 / 10)) (double (98 / 100)) (score_draw (iteration example_draws 0))"
    by (simp add: new_assignment_def split: prod.splits)
  then have score: "confidence_score (new_assignment 1 \<lparr> sample_id = ''S1'' \<rparr> 0 (iteration example_draws 0))
          = 7566047373982433 / 2 ^ 53"
    unfolding u uniform_half .
  have medium: "claimed_level (7566047373982433 / 2 ^ 53) = ''medium''"
    by (simp add: claimed_level_def)
  have out: "(''high'', 7566047373982433 / 2 ^ 53 :: real) \<notin> range claimed_classify"
  proof
    assume "(''high'', 7566047373982433 / 2 ^ 53 :: real) \<in> range claimed_classify"
    then obtain bm where "claimed_classify bm = (''high'', 7566047373982433 / 2 ^ 53)" by auto
    then have "9 / 10 \<le> (7566047373982433 / 2 ^ 53 :: real)" by (rule claimed_classify_high)
    then show False by simp
  qed
  show ?thesis unfolding r0 level score using medium out by simp
qed

text \<open>
  C7 (amended): every assignment that \<open>process_sequence_file\<close> creates, in a run that succeeds
  or not, has the score \<open>random.uniform(0.7, 0.98)\<close> of the score draw of its iteration, a
  double between the doubles 0.7 and 0.98 (both included) when the draws come from
  \<open>[0, 1)\<close>; its level is \<open>high\<close> when the level draw of its iteration is above the
  double 0.3 and \<open>medium\<close> otherwise, never \<open>low\<close> or \<open>uncertain\<close>, whatever the score; and
  it stores no identity and no coverage. A run that succeeds creates one assignment per
  iteration.
\<close>

theorem confidence_is_drawn:
  assumes "\<forall>i. unit_draw (score_draw (iteration rnd i))"
  shows "(succeeded (process_sequence_file d sid file_path rnd) \<longrightarrow>
            length (created_by d (fst (process_sequence_file d sid file_path rnd)))
              = iterations rnd) \<and>
         (\<forall>a\<in>set (created_by d (fst (process_sequence_file d sid file_path rnd))).
            \<exists>i<iterations rnd.
              (\<exists>smp. samples d sid = Some smp \<and> sequence_id a = seq_id smp i) \<and>
              confidence_score a
                = uniform (double (7 / 10)) (double (98 / 100)) (score_draw (iteration rnd i)) \<and>
              double (7 / 10) \<le> confidence_score a \<and> confidence_score a \<le> double (98 / 100) \<and>
              confidence_level a
                = (if double (3 / 10) < level_draw (iteration rnd i) then ''high'' else ''medium'') \<and>
              identity_percent a = None \<and> coverage_percent a = None)"
proof (intro conjI impI ballI)
  assume "succeeded (process_sequence_file d sid file_path rnd)"
  then obtain smp where
    "process_sequence_file d sid file_path rnd =
           (d\<lparr>assignments := assignments d @ created_rows sid smp rnd,
               queue := queue d @ [Calculate_biodiversity_metrics sid]\<rparr>,
            Returned (Process_success (iterations rnd) file_path))"
    by (rule process_succeeded)
  then show "length (created_by d (fst (process_sequence_file d sid file_path rnd))) = iterations rnd"
    by (simp add: created_by_def created_rows_length)
next
  fix a assume "a \<in> set (created_by d (fst (process_sequence_file d sid file_path rnd)))"
  then obtain smp i where smp: "samples d sid = Some smp" and i: "i < iterations rnd"
    and a: "a = new_assignment sid smp i (iteration rnd i)"
    using created_origin by blast
  let ?u = "score_draw (iteration rnd i)"
  have u: "unit_draw ?u" using assms by simp
  have score: "confidence_score a = uniform (double (7 / 10)) (double (98 / 100)) ?u"
    by (simp add: a new_assignment_def split: prod.splits)
  have id: "\<exists>smp. samples d sid = Some smp \<and> sequence_id a = seq_id smp i"
    using smp by (simp add: a new_assignment_key)
  have level: "confidence_level a
                = (if double (3 / 10) < level_draw (iteration rnd i) then ''high'' else ''medium'')"
    by (simp add: a new_assignment_def split: prod.splits)
  have lo: "double (7 / 10) \<le> confidence_score a"
    unfolding score using u by (rule uniform_bounds(1))
  have hi: "confidence_score a \<le> double (98 / 100)"
    unfolding score using u by (rule uniform_bounds(2))
  have noid: "identity_percent a = None"
    by (simp add: a new_assignment_def split: prod.splits)
  have nocov: "coverage_percent a = None"
    by (simp add: a new_assignment_def split: prod.splits)
  show "\<exists>i<iterations rnd.
              (\<exists>smp. samples d sid = Some smp \<and> sequence_id a = seq_id smp i) \<and>
              confidence_score a
                = uniform (double (7 / 10)) (double (98 / 100)) (score_draw (iteration rnd i)) \<and>
              double (7 / 10) \<le> confidence_score a \<and> confidence_score a \<le> double (98 / 100) \<and>
              confidence_level a
                = (if double (3 / 10) < level_draw (iteration rnd i) then ''high'' else ''medium'') \<and>
              identity_percent a = None \<and> coverage_percent a = None"
    by (intro exI [of _ i] conjI i id score lo hi level noid nocov)
qed

theorem confidence_is_drawn_witness:
  "length (created_by (example_db [])
             (fst (process_sequence_file (example_db []) 1 ''/temp/S1.fastq'' example_draws))) = 50 \<and>
   list_all (\<lambda>a. confidence_score a = 7566047373982433 / 2 ^ 53 \<and> confidence_level a = ''high'' \<and>
                 identity_percent a = None)
     (created_by (example_db [])
        (fst (process_sequence_file (example_db []) 1 ''/temp/S1.fastq'' example_draws)))"
proof -
  have u: "\<forall>i. unit_draw (score_draw (iteration example_draws i))"
    by (simp add: example_draws_def unit_draw_def)
  have z: "\<And>i. score_draw (iteration example_draws i) = 1 / 2"
    and l: "\<And>i. level_draw (iteration example_draws i) = 1 / 2"
    by (simp_all add: example_draws_def)
  have s: "succeeded (process_sequence_file (example_db []) 1 ''/temp/S1.fastq'' example_draws)"
    by (subst example_run) simp
  from confidence_is_drawn [OF u, of "example_db []" 1 "''/temp/S1.fastq''"] s
    three_tenths_below_half
  show ?thesis
    unfolding list_all_iff z l uniform_half example_iterations by fastforce
qed

text \<open>
  C8, as the specification states it, makes the novel-taxon flag a function of the hits:
  true exactly when there is no hit or the best one has an identity below 80. The
  assignments that \<open>process_sequence_file\<close> creates get a drawn flag: the first two
  assignments of the example run agree in every field but the sequence id and the flag
  (same taxon, same database, no identity and no coverage stored), so the specification's
  detector answers the same for both; yet the first is flagged and the second is not.
\<close>

theorem novel_flag_counterexample:
  "is_novel_taxon (assignments (fst (process_sequence_file (example_db []) 1 ''/temp/S1.fastq'' example_draws)) ! 0) \<and>
   \<not> is_novel_taxon (assignments (fst (process_sequence_file (example_db []) 1 ''/temp/S1.fastq'' example_draws)) ! 1) \<and>
   (assignments (fst (process_sequence_file (example_db []) 1 ''/temp/S1.fastq'' example_draws)) ! 0)\<lparr>sequence_id := sequence_id (assignments (fst (process_sequence_file (example_db []) 1 ''/temp/S1.fastq'' example_draws)) ! 1), is_novel_taxon := is_novel_taxon (assignments (fst (process_sequence_file (example_db []) 1 ''/temp/S1.fastq'' example_draws)) ! 1)\<rparr> = assignments (fst (process_sequence_file (example_db []) 1 ''/temp/S1.fastq'' example_draws)) ! 1 \<and>
   claimed_is_novel (best_match (assignments (fst (process_sequence_file (example_db []) 1 ''/temp/S1.fastq'' example_draws)) ! 0)) = claimed_is_novel (best_match (assignments (fst (process_sequence_file (example_db []) 1 ''/temp/S1.fastq'' example_draws)) ! 1))"
proof -
  have r0: "assignments (fst (process_sequence_file (example_db []) 1 ''/temp/S1.fastq'' example_draws)) ! 0
          = new_assignment 1 \<lparr> sample_id = ''S1'' \<rparr> 0 (iteration example_draws 0)"
    by (rule example_row_nth) (simp add: example_iterations)
  have r1: "assignments (fst (process_sequence_file (example_db []) 1 ''/temp/S1.fastq'' example_draws)) ! 1
          = new_assignment 1 \<lparr> sample_id = ''S1'' \<rparr> 1 (iteration example_draws 1)"
    by (rule example_row_nth) (simp add: example_iterations)
  show ?thesis unfolding r0 r1 using tenth_between
    by (simp add: new_assignment_def example_draws_def choice_def sample_taxa_def best_match_def)
qed

text \<open>
  C8 (amended): every assignment that \<open>process_sequence_file\<close> creates, in a run that succeeds
  or not, is flagged novel exactly when the novelty draw of its iteration is below the
  double 0.1, whatever taxon the iteration chose; it names the database
  \<open>SSU_eukaryote_rRNA\<close> as its source and stores no identity and no coverage. A run that
  succeeds creates one assignment per iteration.
\<close>

theorem novel_flag_is_drawn:
  "(succeeded (process_sequence_file d sid file_path rnd) \<longrightarrow>
      length (created_by d (fst (process_sequence_file d sid file_path rnd))) = iterations rnd) \<and>
   (\<forall>a\<in>set (created_by d (fst (process_sequence_file d sid file_path rnd))).
      \<exists>i<iterations rnd.
        (\<exists>smp. samples d sid = Some smp \<and> sequence_id a = seq_id smp i) \<and>
        is_novel_taxon a = (novel_draw (iteration rnd i) < double (1 / 10)) \<and>
        database_source a = ''SSU_eukaryote_rRNA'' \<and>
        identity_percent a = None \<and> coverage_percent a = None)"
proof (intro conjI impI ballI)
  assume "succeeded (process_sequence_file d sid file_path rnd)"
  then obtain smp where
    "process_sequence_file d sid file_path rnd =
           (d\<lparr>assignments := assignments d @ created_rows sid smp rnd,
               queue := queue d @ [Calculate_biodiversity_metrics sid]\<rparr>,
            Returned (Process_success (iterations rnd) file_path))"
    by (rule process_succeeded)
  then show "length (created_by d (fst (process_sequence_file d sid file_path rnd))) = iterations rnd"
    by (simp add: created_by_def created_rows_length)
next
  fix a assume "a \<in> set (created_by d (fst (process_sequence_file d sid file_path rnd)))"
  then obtain smp i where smp: "samples d sid = Some smp" and i: "i < iterations rnd"
    and a: "a = new_assignment sid smp i (iteration rnd i)"
    using created_origin by blast
  have id: "\<exists>smp. samples d sid = Some smp \<and> sequence_id a = seq_id smp i"
    using smp by (simp add: a new_assignment_key)
  have flag: "is_novel_taxon a = (novel_draw (iteration rnd i) < double (1 / 10))"
    by (simp add: a new_assignment_def split: prod.splits)
  have src: "database_source a = ''SSU_eukaryote_rRNA''"
    by (simp add: a new_assignment_def split: prod.splits)
  have noid: "identity_percent a = None"
    by (simp add: a new_assignment_def split: prod.splits)
  have nocov: "coverage_percent a = None"
    by (simp add: a new_assignment_def split: prod.splits)
  show "\<exists>i<iterations rnd.
        (\<exists>smp. samples d sid = Some smp \<and> sequence_id a = seq_id smp i) \<and>
        is_novel_taxon a = (novel_draw (iteration rnd i) < double (1 / 10)) \<and>
        database_source a = ''SSU_eukaryote_rRNA'' \<and>
        identity_percent a = None \<and> coverage_percent a = None"
    by (intro exI [of _ i] conjI i id flag src noid nocov)
qed

theorem novel_flag_is_drawn_witness:
  "length (created_by (example_db [])
             (fst (process_sequence_file (example_db []) 1 ''/temp/S1.fastq'' other_draws))) = 57 \<and>
   list_all (\<lambda>a. \<not> is_novel_taxon a \<and> identity_percent a = None)
     (created_by (example_db [])
        (fst (process_sequence_file (example_db []) 1 ''/temp/S1.fastq'' other_draws)))"
proof -
  have n: "\<And>i. novel_draw (iteration other_draws i) = 1 / 2"
    by (simp add: other_draws_def)
  have it: "iterations other_draws = 57"
    by (simp add: iterations_def randint_def other_draws_def)
  have s: "succeeded (process_sequence_file (example_db []) 1 ''/temp/S1.fastq'' other_draws)"
    by (subst example_run) simp
  from novel_flag_is_drawn [of "example_db []" 1 "''/temp/S1.fastq''" other_draws] s
    tenth_between(2)
  show ?thesis
    unfolding list_all_iff n it by fastforce
qed

text \<open>
  C9, as the specification states it, has the second run succeed and overwrite the first
  run's assignments. The function inserts with \<open>objects.create\<close>: the second run's first insert
  violates \<open>unique_together = ['sample', 'sequence_id']\<close>, and the function returns the error
  dictionary of the \<open>IntegrityError\<close> where the first run returned success.
\<close>

theorem rerun_counterexample:
  "snd (process_sequence_file (example_db []) 1 ''/temp/S1.fastq'' example_draws)
     = Returned (Process_success 50 ''/temp/S1.fastq'') \<and>
   snd (process_sequence_file
          (fst (process_sequence_file (example_db []) 1 ''/temp/S1.fastq'' example_draws))
          1 ''/temp/S1.fastq'' example_draws)
     = Returned (Error_exception IntegrityError)"
proof -
  have s: "succeeded (process_sequence_file (example_db []) 1 ''/temp/S1.fastq'' example_draws)"
    by (subst example_run) simp
  have first: "snd (process_sequence_file (example_db []) 1 ''/temp/S1.fastq'' example_draws)
                 = Returned (Process_success 50 ''/temp/S1.fastq'')"
    by (subst example_run) (simp add: example_iterations)
  show ?thesis
    using first rerun_after_success [OF s, of "''/temp/S1.fastq''" example_draws] by simp
qed

text \<open>
  C9 (amended): after a run of \<open>process_sequence_file\<close> that succeeded, a second run for the
  same sample, with the same or any other draws, returns the error dictionary of an
  \<open>IntegrityError\<close> and leaves the whole database exactly as the first run left it: nothing
  is overwritten. A table without duplicate (sample, sequence id) pairs has none after the
  first run either.
\<close>

theorem rerun_leaves_first_run:
  assumes "succeeded (process_sequence_file d sid file_path rnd)"
  shows "process_sequence_file (fst (process_sequence_file d sid file_path rnd)) sid file_path' rnd'
           = (fst (process_sequence_file d sid file_path rnd),
              Returned (Error_exception IntegrityError)) \<and>
         (unique_together (assignments d) \<longrightarrow>
            unique_together (assignments (fst (process_sequence_file d sid file_path rnd))))"
proof (intro conjI impI)
  show "process_sequence_file (fst (process_sequence_file d sid file_path rnd)) sid file_path' rnd'
           = (fst (process_sequence_file d sid file_path rnd),
              Returned (Error_exception IntegrityError))"
    using assms by (rule rerun_after_success)
next
  assume "unique_together (assignments d)"
  then show "unique_together (assignments (fst (process_sequence_file d sid file_path rnd)))"
    by (rule process_unique)
qed

theorem rerun_leaves_first_run_witness:
  "process_sequence_file
     (fst (process_sequence_file (example_db []) 1 ''/temp/S1.fastq'' example_draws))
     1 ''/temp/S1.fastq'' other_draws
   = (fst (process_sequence_file (example_db []) 1 ''/temp/S1.fastq'' example_draws),
      Returned (Error_exception IntegrityError)) \<and>
   unique_together
     (assignments (fst (process_sequence_file (example_db []) 1 ''/temp/S1.fastq'' example_draws)))"
proof -
  have s: "succeeded (process_sequence_file (example_db []) 1 ''/temp/S1.fastq'' example_draws)"
    by (subst example_run) simp
  have u: "unique_together (assignments (example_db []))"
    by (simp add: unique_together_def example_db_def)
  from rerun_leaves_first_run [OF s, of "''/temp/S1.fastq''" other_draws] u
  show ?thesis by blast
qed

end
